theory Spec2Isabelle
  imports Complex_Main "HOL-Library.Word" "HOL-Library.Sublist"
begin

section \<open>Bulk-operation orchestrators of the WhatsApp bot\<close>

text \<open>
  A shallow embedding of \<^verbatim>\<open>src/message-sender.js\<close> and \<^verbatim>\<open>src/group-creator.js\<close>.

  \<^item> A JavaScript string is a sequence of UTF-16 code units: \<open>ustring\<close>. The
    Cyrillic look-alikes and the zero-width marks of the variation table are one code
    unit each, so \<open>length\<close> is the source's \<^verbatim>\<open>.length\<close>.
  \<^item> The numbers the orchestrators receive (counts, delays in seconds, batch sizes) are
    results of \<^verbatim>\<open>parseInt\<close> in the command handler: they are modelled as \<open>int\<close>.
  \<^item> \<^verbatim>\<open>Math.random()\<close> is a sequence of draws \<open>rnd 0, rnd 1, \<dots>\<close>; a draw is a
    real number (every double is one) and the arithmetic on it is exact. The state of
    a run counts the draws it has consumed.
  \<^item> Logging is left out; every other effect of a run (waits, collaborator calls,
    progress callbacks) is appended to the trace carried by the state.
\<close>

subsection \<open>Strings\<close>

type_synonym uchar = "16 word"
type_synonym ustring = "uchar list"

text \<open>An ASCII literal as a sequence of code units.\<close>

definition ascii :: "string \<Rightarrow> ustring" where
  "ascii cs = map (\<lambda>c. of_nat (of_char c)) cs"

text \<open>
  \<^verbatim>\<open>slice(start, end)\<close> of a string or an array: negative arguments count from
  the end.
\<close>

definition slice :: "'a list \<Rightarrow> int \<Rightarrow> int \<Rightarrow> 'a list" where
  "slice s start end' =
     (let len = int (length s);
          from = (if start < 0 then max (len + start) 0 else min start len);
          to = (if end' < 0 then max (len + end') 0 else min end' len)
      in take (nat (to - from)) (drop (nat from) s))"

text \<open>
  \<^verbatim>\<open>s.replace(pattern, replacement)\<close> with a string pattern: only the first
  occurrence is replaced. (The replacements of the table hold no \<^verbatim>\<open>$\<close> pattern.)
\<close>

fun replaceFirst :: "ustring \<Rightarrow> ustring \<Rightarrow> ustring \<Rightarrow> ustring" where
  "replaceFirst [] pat rep = (if pat = [] then rep else [])"
| "replaceFirst (c # cs) pat rep =
     (if prefix pat (c # cs) then rep @ drop (length pat) (c # cs)
      else c # replaceFirst cs pat rep)"

text \<open>
  \<^verbatim>\<open>Number.prototype.toString()\<close> on an integer (one that JavaScript writes out in
  full, without an exponent), and \<^verbatim>\<open>padStart\<close>.
\<close>

definition digitChar :: "nat \<Rightarrow> uchar" where
  "digitChar d = of_nat (48 + d)"

function digits :: "nat \<Rightarrow> ustring" where
  "digits n = (if n < 10 then [digitChar n] else digits (n div 10) @ [digitChar (n mod 10)])"
  by pat_completeness auto
termination
  by (relation "measure id") auto

declare digits.simps [simp del]

definition toString :: "int \<Rightarrow> ustring" where
  "toString n = (if n < 0 then 0x2D # digits (nat (- n)) else digits (nat n))"

definition padStart :: "ustring \<Rightarrow> int \<Rightarrow> uchar \<Rightarrow> ustring" where
  "padStart s targetLength fill = replicate (nat (targetLength - int (length s))) fill @ s"

subsection \<open>Random draws\<close>

type_synonym random = "nat \<Rightarrow> real"

definition unitDraw :: "real \<Rightarrow> bool" where
  "unitDraw r = (0 \<le> r \<and> r < 1)"

subsection \<open>message-sender.js: the anti-ban table and the pure helpers\<close>

definition MIN_RANDOM_DELAY :: int where "MIN_RANDOM_DELAY = 1000"
definition MAX_RANDOM_DELAY :: int where "MAX_RANDOM_DELAY = 6000"
definition BATCH_SIZE :: int where "BATCH_SIZE = 26"
definition BATCH_COOLDOWN :: int where "BATCH_COOLDOWN = 300000"

datatype variation =
    Append ustring
  | Prepend ustring
  | Replace ustring ustring
  | Invisible ustring

definition MESSAGE_VARIATIONS :: "variation list" where
  "MESSAGE_VARIATIONS =
     [Append [], Append [0x20], Append [0x2E],
      Prepend [], Prepend [0x20],
      Replace [0x61] [0x430], Replace [0x65] [0x435], Replace [0x6F] [0x43E],
      Invisible [0x200B], Invisible [0x200C]]"

text \<open>An array read: \<^verbatim>\<open>undefined\<close> (here \<open>None\<close>) outside the array.\<close>

definition element :: "'a list \<Rightarrow> int \<Rightarrow> 'a option" where
  "element xs i = (if 0 \<le> i \<and> i < int (length xs) then Some (xs ! nat i) else None)"

text \<open>
  \<open>addMessageVariation rnd k originalMessage\<close> reads the draws from number \<open>k\<close> on
  and returns the message with the number of the next unread draw. The position of the
  invisible mark is drawn only when that rule was selected. \<open>None\<close> is the
  \<^verbatim>\<open>TypeError\<close> of reading \<^verbatim>\<open>variation.append\<close> when the table read gave
  \<^verbatim>\<open>undefined\<close>.
\<close>

definition addMessageVariation :: "random \<Rightarrow> nat \<Rightarrow> ustring \<Rightarrow> ustring option \<times> nat" where
  "addMessageVariation rnd k originalMessage =
     (case element MESSAGE_VARIATIONS \<lfloor>rnd k * of_int (int (length MESSAGE_VARIATIONS))\<rfloor> of
        None \<Rightarrow> (None, k + 1)
      | Some (Append a) \<Rightarrow> (Some (originalMessage @ a), k + 1)
      | Some (Prepend p) \<Rightarrow> (Some (p @ originalMessage), k + 1)
      | Some (Replace pat rep) \<Rightarrow> (Some (replaceFirst originalMessage pat rep), k + 1)
      | Some (Invisible mark) \<Rightarrow>
          (let position = \<lfloor>rnd (k + 1) * of_int (int (length originalMessage))\<rfloor>
           in (Some (slice originalMessage 0 position @ mark
                     @ slice originalMessage position (int (length originalMessage))),
               k + 2)))"

definition getRandomizedDelay :: "int \<Rightarrow> real \<Rightarrow> int" where
  "getRandomizedDelay baseDelaySeconds r =
     (let baseDelay = baseDelaySeconds * 1000;
          randomOffset = \<lfloor>r * of_int (MAX_RANDOM_DELAY - MIN_RANDOM_DELAY)
                           + of_int MIN_RANDOM_DELAY\<rfloor>
      in baseDelay + randomOffset)"

subsection \<open>group-creator.js: validation and the rate limit\<close>

datatype run_error =
    ClientNotReady
  | NoParticipants
  | TooManyParticipants
  | InvalidPhoneNumbers "ustring list"
  | CallbackError ustring

definition isDigit :: "uchar \<Rightarrow> bool" where
  "isDigit c = (0x30 \<le> c \<and> c \<le> 0x39)"

text \<open>
  The test \<^verbatim>\<open>/^\d+@c\.us$/\<close>: \<^verbatim>\<open>@\<close> is no digit, so \<^verbatim>\<open>\d+\<close> takes the whole
  leading run of digits, which must not be empty, and the rest is the suffix.
\<close>

definition matchesPhone :: "ustring \<Rightarrow> bool" where
  "matchesPhone number =
     (takeWhile isDigit number \<noteq> [] \<and> dropWhile isDigit number = ascii ''@c.us'')"

text \<open>
  \<open>None\<close> when the list passes, else the error thrown. A missing list
  (\<^verbatim>\<open>!participants\<close>) is the empty one here.
\<close>

definition validateParticipants :: "ustring list \<Rightarrow> run_error option" where
  "validateParticipants participants =
     (if participants = [] then Some NoParticipants
      else if length participants > 256 then Some TooManyParticipants
      else (let invalidNumbers = filter (\<lambda>number. \<not> matchesPhone number) participants
            in if length invalidNumbers > 0 then Some (InvalidPhoneNumbers invalidNumbers)
               else None))"

definition getRateLimit :: "int \<Rightarrow> real \<Rightarrow> int" where
  "getRateLimit count r =
     (let delay = 3000;
          delay = (if count > 10 then 5000 else delay);
          delay = (if count > 20 then 8000 else delay);
          delay = (if count > 30 then 12000 else delay);
          randomFactor = 1 / 2 + r
      in \<lfloor>of_int delay * randomFactor\<rfloor>)"

subsection \<open>Collaborator, progress callback, effects and run state\<close>

text \<open>
  What a collaborator call does: \<open>Rejects message\<close> throws an error with that message;
  \<open>Resolves (Some id)\<close> returns a handle whose serialized id (\<^verbatim>\<open>gid._serialized\<close>,
  \<^verbatim>\<open>id._serialized\<close>) is \<open>id\<close>; \<open>Resolves None\<close> returns a value without that
  property (\<^verbatim>\<open>undefined\<close>, a string), on which the orchestrator's read of the id
  throws a \<^verbatim>\<open>TypeError\<close>.

  The collaborator is external and stateful: its answer is an arbitrary function of the
  number of calls the run has made before, and of the arguments. \<open>info\<close> is the test
  \<^verbatim>\<open>client && client.info\<close>.
\<close>

datatype response = Rejects ustring | Resolves "ustring option"

record client =
  info :: bool
  createGroup :: "nat \<Rightarrow> ustring \<Rightarrow> ustring list \<Rightarrow> response"
  sendMessage :: "nat \<Rightarrow> ustring \<Rightarrow> ustring \<Rightarrow> response"

definition typeErrorMessage :: ustring where
  "typeErrorMessage = ascii ''Cannot read properties of undefined''"

text \<open>
  The objects handed to the progress callback. \<open>GroupProgress\<close>: current, total, success,
  failed, currentBatch, totalBatches, batchProgress, batchSize. \<open>MessageProgress\<close>:
  current, total, success, failed, lastRecipient, currentBatch, totalBatches.
  \<open>CooldownProgress\<close> (\<^verbatim>\<open>cooldown: true\<close>): current, total, success, failed,
  cooldownSeconds, nextBatch, totalBatches.
\<close>

datatype progress =
    GroupProgress int int nat nat int int int int
  | MessageProgress int int nat nat ustring int int
  | CooldownProgress int int nat nat int int int

text \<open>
  A callback is absent (\<open>None\<close>: \<^verbatim>\<open>typeof progressCallback !== 'function'\<close>) or a
  function that returns (\<open>None\<close>) or throws an error with a message.
\<close>

type_synonym callback = "(progress \<Rightarrow> ustring option) option"

text \<open>
  \<open>UnitDelay\<close> and \<open>BatchCooldown\<close> are both \<^verbatim>\<open>await delay(ms)\<close>: the wait before
  a unit and the wait between two batches. \<open>CreateGroup\<close> holds the name and the
  participants of the call; its third argument is the same constant object in every call
  and is not recorded.
\<close>

datatype effect =
    UnitDelay int
  | BatchCooldown int
  | CreateGroup ustring "ustring list"
  | SendMessage ustring ustring
  | Progress progress

text \<open>
  The \<^verbatim>\<open>results\<close> object (\<open>success\<close>, \<open>failed\<close>, and \<open>log\<close> for
  \<^verbatim>\<open>results.groups\<close> or \<^verbatim>\<open>results.details\<close>) with the effects performed so far,
  the number of collaborator calls made and the number of random draws consumed.
\<close>

record 'o state =
  success :: nat
  failed :: nat
  log :: "'o list"
  trace :: "effect list"
  calls :: nat
  draws :: nat

definition initial :: "'o state" where
  "initial = \<lparr>success = 0, failed = 0, log = [], trace = [], calls = 0, draws = 0\<rparr>"

text \<open>A run returns its results (\<open>Normal\<close>) or throws, leaving the state it had reached.\<close>

datatype 's flow = Normal 's | Threw run_error 's

definition emit :: "effect \<Rightarrow> 'o state \<Rightarrow> 'o state" where
  "emit e s = s\<lparr>trace := trace s @ [e]\<rparr>"

text \<open>\<^verbatim>\<open>if (typeof progressCallback === 'function') await progressCallback(ev)\<close>\<close>

definition notify :: "callback \<Rightarrow> progress \<Rightarrow> 'o state \<Rightarrow> 'o state flow" where
  "notify progressCallback ev s =
     (case progressCallback of
        None \<Rightarrow> Normal s
      | Some cb \<Rightarrow>
          (case cb ev of
             None \<Rightarrow> Normal (emit (Progress ev) s)
           | Some message \<Rightarrow> Threw (CallbackError message) (emit (Progress ev) s)))"

text \<open>\<^verbatim>\<open>for (let i = start; i < n; i++) body\<close>, left by a throw of the body.\<close>

function forLoop :: "int \<Rightarrow> int \<Rightarrow> (int \<Rightarrow> 's \<Rightarrow> 's flow) \<Rightarrow> 's \<Rightarrow> 's flow" where
  "forLoop i n body s =
     (if i < n
      then (case body i s of
              Normal s' \<Rightarrow> forLoop (i + 1) n body s'
            | Threw e s' \<Rightarrow> Threw e s')
      else Normal s)"
  by pat_completeness auto
termination
  by (relation "measure (\<lambda>(i, n, body, s). nat (n - i))") auto

declare forLoop.simps [simp del]

subsection \<open>group-creator.js: createMultipleGroups\<close>

record options =
  o_startingNumber :: "int option"
  o_delaySeconds :: "int option"
  o_padNumbers :: "bool option"
  o_batchSize :: "int option"
  o_batchCooldownSeconds :: "int option"

text \<open>The default \<^verbatim>\<open>options = {}\<close>: nothing given.\<close>

definition noOptions :: options where
  "noOptions = \<lparr>o_startingNumber = None, o_delaySeconds = None, o_padNumbers = None,
                 o_batchSize = None, o_batchCooldownSeconds = None\<rparr>"

record settings =
  startingNumber :: int
  delaySeconds :: int
  padNumbers :: bool
  batchSize :: int
  batchCooldownSeconds :: int

text \<open>\<^verbatim>\<open>value || dflt\<close> on a number: \<^verbatim>\<open>undefined\<close> and 0 give the default.\<close>

definition orElse :: "int option \<Rightarrow> int \<Rightarrow> int" where
  "orElse v dflt = (case v of None \<Rightarrow> dflt | Some x \<Rightarrow> if x = 0 then dflt else x)"

definition settingsOf :: "options \<Rightarrow> settings" where
  "settingsOf opts =
     \<lparr>startingNumber = orElse (o_startingNumber opts) 1,
      delaySeconds = orElse (o_delaySeconds opts) 0,
      padNumbers = (case o_padNumbers opts of None \<Rightarrow> False | Some b \<Rightarrow> b),
      batchSize = orElse (o_batchSize opts) 10,
      batchCooldownSeconds = orElse (o_batchCooldownSeconds opts) 120\<rparr>"

record group_outcome =
  g_name :: ustring
  g_number :: int
  g_id :: "ustring option"
  g_success :: bool
  g_error :: "ustring option"

definition groupCreated :: "ustring \<Rightarrow> int \<Rightarrow> ustring \<Rightarrow> group_outcome" where
  "groupCreated groupName groupNumber gid =
     \<lparr>g_name = groupName, g_number = groupNumber, g_id = Some gid, g_success = True,
      g_error = None\<rparr>"

definition groupFailed :: "ustring \<Rightarrow> int \<Rightarrow> ustring \<Rightarrow> group_outcome" where
  "groupFailed groupName groupNumber message =
     \<lparr>g_name = groupName, g_number = groupNumber, g_id = None, g_success = False,
      g_error = Some message\<rparr>"

definition formatGroupName :: "settings \<Rightarrow> ustring \<Rightarrow> int \<Rightarrow> int \<Rightarrow> ustring" where
  "formatGroupName st groupPrefix maxDigits groupNumber =
     (let formattedNumber =
            (if padNumbers st then padStart (toString groupNumber) maxDigits 0x30
             else toString groupNumber)
      in groupPrefix @ [0x20] @ formattedNumber)"

text \<open>
  The wait before a group that is not the first: the fixed delay the caller gave, or the
  rate limit, which alone reads a draw.
\<close>

definition waitTime :: "settings \<Rightarrow> int \<Rightarrow> real \<Rightarrow> int" where
  "waitTime st currentIndex r =
     (if delaySeconds st > 0 then delaySeconds st * 1000
      else getRateLimit (currentIndex + 1) r)"

text \<open>
  The \<^verbatim>\<open>try\<close> block of one group and its \<^verbatim>\<open>catch\<close>. \<^verbatim>\<open>results.success++\<close>
  comes before the entry is built, so a handle without id is counted there and again in
  the \<^verbatim>\<open>catch\<close>.
\<close>

definition tryCreateGroup ::
  "client \<Rightarrow> settings \<Rightarrow> random \<Rightarrow> ustring list \<Rightarrow> int \<Rightarrow> ustring \<Rightarrow> int
     \<Rightarrow> group_outcome state \<Rightarrow> group_outcome state" where
  "tryCreateGroup cl st rnd participants currentIndex groupName groupNumber s =
     (let s1 = (if currentIndex > 0
                then emit (UnitDelay (waitTime st currentIndex (rnd (draws s))))
                       (if delaySeconds st > 0 then s else s\<lparr>draws := draws s + 1\<rparr>)
                else s);
          s2 = emit (CreateGroup groupName participants) (s1\<lparr>calls := calls s1 + 1\<rparr>)
      in case createGroup cl (calls s1) groupName participants of
           Rejects message \<Rightarrow>
             s2\<lparr>failed := failed s2 + 1,
                log := log s2 @ [groupFailed groupName groupNumber message]\<rparr>
         | Resolves (Some gid) \<Rightarrow>
             s2\<lparr>success := success s2 + 1,
                log := log s2 @ [groupCreated groupName groupNumber gid]\<rparr>
         | Resolves None \<Rightarrow>
             s2\<lparr>success := success s2 + 1, failed := failed s2 + 1,
                log := log s2 @ [groupFailed groupName groupNumber typeErrorMessage]\<rparr>)"

text \<open>The body of the inner loop: one group, then the progress callback.\<close>

definition groupUnit ::
  "client \<Rightarrow> ustring \<Rightarrow> int \<Rightarrow> ustring list \<Rightarrow> settings \<Rightarrow> callback \<Rightarrow> random
     \<Rightarrow> int \<Rightarrow> int \<Rightarrow> int \<Rightarrow> int \<Rightarrow> group_outcome state \<Rightarrow> group_outcome state flow" where
  "groupUnit cl groupPrefix count participants st progressCallback rnd
       maxDigits totalBatches batchIndex i s =
     (let batchStart = batchIndex * batchSize st;
          batchEnd = min (batchStart + batchSize st) count;
          currentBatchSize = batchEnd - batchStart;
          currentIndex = batchStart + i;
          groupNumber = startingNumber st + currentIndex;
          groupName = formatGroupName st groupPrefix maxDigits groupNumber;
          s' = tryCreateGroup cl st rnd participants currentIndex groupName groupNumber s
      in notify progressCallback
           (GroupProgress (currentIndex + 1) count (success s') (failed s')
              (batchIndex + 1) totalBatches (i + 1) currentBatchSize) s')"

text \<open>The body of the outer loop: one batch, then the cooldown unless it was the last.\<close>

definition groupBatch ::
  "client \<Rightarrow> ustring \<Rightarrow> int \<Rightarrow> ustring list \<Rightarrow> settings \<Rightarrow> callback \<Rightarrow> random
     \<Rightarrow> int \<Rightarrow> int \<Rightarrow> int \<Rightarrow> group_outcome state \<Rightarrow> group_outcome state flow" where
  "groupBatch cl groupPrefix count participants st progressCallback rnd
       maxDigits totalBatches batchIndex s =
     (let batchStart = batchIndex * batchSize st;
          batchEnd = min (batchStart + batchSize st) count;
          currentBatchSize = batchEnd - batchStart
      in case forLoop 0 currentBatchSize
                (groupUnit cl groupPrefix count participants st progressCallback rnd
                   maxDigits totalBatches batchIndex) s of
           Threw e s' \<Rightarrow> Threw e s'
         | Normal s' \<Rightarrow>
             if batchIndex < totalBatches - 1
             then (let cooldownMs = batchCooldownSeconds st * 1000
                   in case notify progressCallback
                             (CooldownProgress batchEnd count (success s') (failed s')
                                (batchCooldownSeconds st) (batchIndex + 2) totalBatches) s' of
                        Threw e s'' \<Rightarrow> Threw e s''
                      | Normal s'' \<Rightarrow> Normal (emit (BatchCooldown cooldownMs) s''))
             else Normal s')"

definition createMultipleGroups ::
  "client \<Rightarrow> ustring \<Rightarrow> int \<Rightarrow> ustring list \<Rightarrow> options \<Rightarrow> callback \<Rightarrow> random
     \<Rightarrow> group_outcome state flow" where
  "createMultipleGroups cl groupPrefix count participants opts progressCallback rnd =
     (let st = settingsOf opts;
          results = initial
      in if \<not> info cl then Threw ClientNotReady results
         else case validateParticipants participants of
                Some e \<Rightarrow> Threw e results
              | None \<Rightarrow>
                  (let endNumber = startingNumber st + count - 1;
                       maxDigits = int (length (toString endNumber));
                       totalBatches = \<lceil>real_of_int count / real_of_int (batchSize st)\<rceil>
                   in forLoop 0 totalBatches
                        (groupBatch cl groupPrefix count participants st progressCallback rnd
                           maxDigits totalBatches) results))"

subsection \<open>message-sender.js: sendBulkMessages\<close>

record message_outcome =
  m_recipient :: ustring
  m_success :: bool
  m_messageId :: "ustring option"
  m_error :: "ustring option"

definition messageSent :: "ustring \<Rightarrow> ustring \<Rightarrow> message_outcome" where
  "messageSent recipient mid =
     \<lparr>m_recipient = recipient, m_success = True, m_messageId = Some mid, m_error = None\<rparr>"

definition messageFailed :: "ustring \<Rightarrow> ustring \<Rightarrow> message_outcome" where
  "messageFailed recipient message =
     \<lparr>m_recipient = recipient, m_success = False, m_messageId = None,
      m_error = Some message\<rparr>"

text \<open>
  The \<^verbatim>\<open>try\<close> block of one recipient and its \<^verbatim>\<open>catch\<close>. As in the group path,
  \<^verbatim>\<open>results.success++\<close> comes before the read of \<^verbatim>\<open>response.id._serialized\<close>.
\<close>

definition trySendMessage ::
  "client \<Rightarrow> ustring \<Rightarrow> int \<Rightarrow> random \<Rightarrow> int \<Rightarrow> ustring
     \<Rightarrow> message_outcome state \<Rightarrow> message_outcome state" where
  "trySendMessage cl message delaySecs rnd totalProcessed recipient s =
     (let s1 = (if totalProcessed > 0
                then emit (UnitDelay (getRandomizedDelay delaySecs (rnd (draws s))))
                       (s\<lparr>draws := draws s + 1\<rparr>)
                else s)
      in case addMessageVariation rnd (draws s1) message of
           (None, k) \<Rightarrow>
             s1\<lparr>draws := k, failed := failed s1 + 1,
                log := log s1 @ [messageFailed recipient typeErrorMessage]\<rparr>
         | (Some modifiedMessage, k) \<Rightarrow>
             (let s2 = emit (SendMessage recipient modifiedMessage)
                         (s1\<lparr>draws := k, calls := calls s1 + 1\<rparr>)
              in case sendMessage cl (calls s1) recipient modifiedMessage of
                   Rejects msg \<Rightarrow>
                     s2\<lparr>failed := failed s2 + 1,
                        log := log s2 @ [messageFailed recipient msg]\<rparr>
                 | Resolves (Some mid) \<Rightarrow>
                     s2\<lparr>success := success s2 + 1,
                        log := log s2 @ [messageSent recipient mid]\<rparr>
                 | Resolves None \<Rightarrow>
                     s2\<lparr>success := success s2 + 1, failed := failed s2 + 1,
                        log := log s2 @ [messageFailed recipient typeErrorMessage]\<rparr>))"

text \<open>The body of the inner loop: one recipient, then the progress callback.\<close>

definition messageUnit ::
  "client \<Rightarrow> ustring \<Rightarrow> ustring list \<Rightarrow> int \<Rightarrow> callback \<Rightarrow> random
     \<Rightarrow> int \<Rightarrow> int \<Rightarrow> int \<Rightarrow> message_outcome state \<Rightarrow> message_outcome state flow" where
  "messageUnit cl message recipients delaySecs progressCallback rnd
       totalBatches batchIndex i s =
     (let batchStart = batchIndex * BATCH_SIZE;
          batchEnd = min (batchStart + BATCH_SIZE) (int (length recipients));
          batchRecipients = slice recipients batchStart batchEnd;
          recipient = batchRecipients ! nat i;
          totalProcessed = batchStart + i;
          s' = trySendMessage cl message delaySecs rnd totalProcessed recipient s
      in notify progressCallback
           (MessageProgress (totalProcessed + 1) (int (length recipients))
              (success s') (failed s') recipient (batchIndex + 1) totalBatches) s')"

text \<open>The body of the outer loop: one batch, then the cooldown unless it was the last.\<close>

definition messageBatch ::
  "client \<Rightarrow> ustring \<Rightarrow> ustring list \<Rightarrow> int \<Rightarrow> callback \<Rightarrow> random
     \<Rightarrow> int \<Rightarrow> int \<Rightarrow> message_outcome state \<Rightarrow> message_outcome state flow" where
  "messageBatch cl message recipients delaySecs progressCallback rnd
       totalBatches batchIndex s =
     (let batchStart = batchIndex * BATCH_SIZE;
          batchEnd = min (batchStart + BATCH_SIZE) (int (length recipients));
          batchRecipients = slice recipients batchStart batchEnd
      in case forLoop 0 (int (length batchRecipients))
                (messageUnit cl message recipients delaySecs progressCallback rnd
                   totalBatches batchIndex) s of
           Threw e s' \<Rightarrow> Threw e s'
         | Normal s' \<Rightarrow>
             if batchIndex < totalBatches - 1
             then (case notify progressCallback
                          (CooldownProgress batchEnd (int (length recipients))
                             (success s') (failed s') (BATCH_COOLDOWN div 1000)
                             (batchIndex + 2) totalBatches) s' of
                     Threw e s'' \<Rightarrow> Threw e s''
                   | Normal s'' \<Rightarrow> Normal (emit (BatchCooldown BATCH_COOLDOWN) s''))
             else Normal s')"

text \<open>
  \<open>delaySecs\<close> is the parameter \<^verbatim>\<open>delaySeconds\<close>; \<open>None\<close> is the omitted argument,
  which defaults to 3.
\<close>

definition sendBulkMessages ::
  "client \<Rightarrow> ustring \<Rightarrow> ustring list \<Rightarrow> int option \<Rightarrow> callback \<Rightarrow> random
     \<Rightarrow> message_outcome state flow" where
  "sendBulkMessages cl message recipients delaySecs progressCallback rnd =
     (let delaySecs = (case delaySecs of None \<Rightarrow> 3 | Some d \<Rightarrow> d);
          results = initial
      in if \<not> info cl then Threw ClientNotReady results
         else (let totalBatches = \<lceil>real (length recipients) / real_of_int BATCH_SIZE\<rceil>
               in forLoop 0 totalBatches
                    (messageBatch cl message recipients delaySecs progressCallback rnd
                       totalBatches) results))"

subsection \<open>Notions the statements below are phrased in\<close>


text \<open>The identifier pattern of the specification: digits, at least one, then the suffix.\<close>

definition phonePattern :: "ustring \<Rightarrow> bool" where
  "phonePattern s =
     (\<exists>ds. ds \<noteq> [] \<and> (\<forall>c \<in> set ds. isDigit c) \<and> s = ds @ ascii ''@c.us'')"

text \<open>A progress callback that never throws (an absent one does not).\<close>

definition quiet :: "callback \<Rightarrow> bool" where
  "quiet progressCallback =
     (case progressCallback of None \<Rightarrow> True | Some cb \<Rightarrow> \<forall>ev. cb ev = None)"

text \<open>The state a run ends in, returned or left behind by a throw.\<close>

definition final :: "'s flow \<Rightarrow> 's" where
  "final f = (case f of Normal s \<Rightarrow> s | Threw e s \<Rightarrow> s)"

text \<open>
  The schedule read off a trace: the collaborator calls, each with the group name or the
  recipient it was made for, and the pauses between batches.
\<close>

datatype mark = Call ustring | Pause

fun marks :: "effect list \<Rightarrow> mark list" where
  "marks [] = []"
| "marks (CreateGroup groupName participants # es) = Call groupName # marks es"
| "marks (SendMessage recipient text # es) = Call recipient # marks es"
| "marks (BatchCooldown ms # es) = Pause # marks es"
| "marks (e # es) = marks es"

text \<open>The waits before units and the cooldown notifications of a trace.\<close>

fun waits :: "effect list \<Rightarrow> int list" where
  "waits [] = []"
| "waits (UnitDelay ms # es) = ms # waits es"
| "waits (e # es) = waits es"

fun cooldownEvents :: "effect list \<Rightarrow> progress list" where
  "cooldownEvents [] = []"
| "cooldownEvents (Progress (CooldownProgress c t sc fl secs nb tb) # es) =
     CooldownProgress c t sc fl secs nb tb # cooldownEvents es"
| "cooldownEvents (e # es) = cooldownEvents es"

text \<open>
  The units of batch \<open>b\<close> when \<open>N\<close> units are cut into batches of \<open>B\<close>, and the
  schedule the specification asks for: batch after batch, a pause after each but the last.
\<close>

definition batchUnits :: "int \<Rightarrow> int \<Rightarrow> int \<Rightarrow> int list" where
  "batchUnits N B b = [b * B .. min (b * B + B) N - 1]"

definition schedule :: "(int \<Rightarrow> ustring) \<Rightarrow> int \<Rightarrow> int \<Rightarrow> int \<Rightarrow> mark list" where
  "schedule label N B T =
     concat (map (\<lambda>b. map (\<lambda>k. Call (label k)) (batchUnits N B b)
                       @ (if b < T - 1 then [Pause] else [])) [0 .. T - 1])"

text \<open>The effects a callback adds to the trace: the event, when there is a callback.\<close>

definition told :: "callback \<Rightarrow> progress \<Rightarrow> effect list" where
  "told progressCallback ev = (case progressCallback of None \<Rightarrow> [] | Some cb \<Rightarrow> [Progress ev])"

text \<open>The entry a run records for a unit, from the collaborator's answer.\<close>

definition groupOutcome :: "ustring \<Rightarrow> int \<Rightarrow> response \<Rightarrow> group_outcome" where
  "groupOutcome groupName groupNumber r =
     (case r of
        Rejects message \<Rightarrow> groupFailed groupName groupNumber message
      | Resolves (Some gid) \<Rightarrow> groupCreated groupName groupNumber gid
      | Resolves None \<Rightarrow> groupFailed groupName groupNumber typeErrorMessage)"

definition messageOutcome :: "ustring \<Rightarrow> response \<Rightarrow> message_outcome" where
  "messageOutcome recipient r =
     (case r of
        Rejects message \<Rightarrow> messageFailed recipient message
      | Resolves (Some mid) \<Rightarrow> messageSent recipient mid
      | Resolves None \<Rightarrow> messageFailed recipient typeErrorMessage)"

text \<open>Every draw lies in \<open>[0, 1)\<close>, as those of \<^verbatim>\<open>Math.random()\<close> do.\<close>

definition unitDraws :: "random \<Rightarrow> bool" where
  "unitDraws rnd = (\<forall>j. unitDraw (rnd j))"

text \<open>A collaborator whose every handle carries its id.\<close>

definition wellFormed :: "client \<Rightarrow> bool" where
  "wellFormed cl =
     ((\<forall>k n ps. createGroup cl k n ps \<noteq> Resolves None)
      \<and> (\<forall>k r t. sendMessage cl k r t \<noteq> Resolves None))"

text \<open>
  The \<^verbatim>\<open>sendMessage\<close> calls of a trace, and the entries the collaborator's answers to
  them give, the \<open>k\<close>-th call of the run being answered as such.
\<close>

fun sent :: "effect list \<Rightarrow> (ustring \<times> ustring) list" where
  "sent [] = []"
| "sent (SendMessage recipient text # es) = (recipient, text) # sent es"
| "sent (e # es) = sent es"

definition answered :: "client \<Rightarrow> (ustring \<times> ustring) list \<Rightarrow> message_outcome list" where
  "answered cl calls' =
     map (\<lambda>(k, recipient, text). messageOutcome recipient (sendMessage cl k recipient text))
       (enumerate 0 calls')"

text \<open>The schedule of the first \<open>b\<close> batches.\<close>

definition scheduled :: "(int \<Rightarrow> ustring) \<Rightarrow> int \<Rightarrow> int \<Rightarrow> int \<Rightarrow> int \<Rightarrow> mark list" where
  "scheduled label N B T b =
     concat (map (\<lambda>b. map (\<lambda>k. Call (label k)) (batchUnits N B b)
                       @ (if b < T - 1 then [Pause] else [])) [0 .. b - 1])"


section \<open>Properties\<close>

subsection \<open>Strings and numbers\<close>






lemma randomOffset_bounds:
  assumes "unitDraw r"
  shows "1000 \<le> \<lfloor>r * 5000 + 1000\<rfloor>" "\<lfloor>r * 5000 + 1000\<rfloor> \<le> 5999"
proof -
  from assms have r: "0 \<le> r" "r < 1" by (simp_all add: unitDraw_def)
  show "1000 \<le> \<lfloor>r * 5000 + 1000\<rfloor>" using r by (simp add: le_floor_iff)
  have "r * 5000 + 1000 < 6000" using r by simp
  then have "\<lfloor>r * 5000 + 1000\<rfloor> < 6000" by (simp add: floor_less_iff)
  then show "\<lfloor>r * 5000 + 1000\<rfloor> \<le> 5999" by simp
qed

lemma getRandomizedDelay_eq:
  "getRandomizedDelay d r = d * 1000 + \<lfloor>r * 5000 + 1000\<rfloor>"
  by (simp add: getRandomizedDelay_def MAX_RANDOM_DELAY_def MIN_RANDOM_DELAY_def)


lemma slice_prefix: "0 \<le> p \<Longrightarrow> slice s 0 p = take (nat p) s"
  by (auto simp: slice_def Let_def min_def)

lemma slice_suffix: "0 \<le> p \<Longrightarrow> p \<le> int (length s) \<Longrightarrow> slice s p (int (length s)) = drop (nat p) s"
  by (auto simp: slice_def Let_def min_def)

lemma length_replaceFirst:
  "pat \<noteq> [] \<Longrightarrow> length rep = length pat \<Longrightarrow> length (replaceFirst s pat rep) = length s"
  by (induction s) (auto dest: prefix_length_le)

lemma draw_index:
  assumes "unitDraw r" "0 < n"
  shows "0 \<le> \<lfloor>r * real_of_int n\<rfloor>" "\<lfloor>r * real_of_int n\<rfloor> < n"
proof -
  from assms have r: "0 \<le> r" "r < 1" by (simp_all add: unitDraw_def)
  show "0 \<le> \<lfloor>r * real_of_int n\<rfloor>" using r assms(2) by simp
  have "r * real_of_int n < real_of_int n" using r assms(2) by simp
  then show "\<lfloor>r * real_of_int n\<rfloor> < n" by (simp add: floor_less_iff)
qed

lemma element_variations:
  assumes "unitDraw r"
  shows "element MESSAGE_VARIATIONS \<lfloor>r * real_of_int (int (length MESSAGE_VARIATIONS))\<rfloor>
           \<in> Some ` set MESSAGE_VARIATIONS"
proof -
  have "0 \<le> \<lfloor>r * real_of_int (int (length MESSAGE_VARIATIONS))\<rfloor>"
       "\<lfloor>r * real_of_int (int (length MESSAGE_VARIATIONS))\<rfloor> < int (length MESSAGE_VARIATIONS)"
    using draw_index [OF assms, of "int (length MESSAGE_VARIATIONS)"]
    by (simp_all add: MESSAGE_VARIATIONS_def)
  then show ?thesis
    by (simp add: element_def nat_less_iff)
qed

lemma variation_cases:
  assumes "v \<in> set MESSAGE_VARIATIONS"
  shows "(\<exists>a. v = Append a \<and> length a \<le> 1) \<or> (\<exists>p. v = Prepend p \<and> length p \<le> 1)
       \<or> (\<exists>pat rep. v = Replace pat rep \<and> pat \<noteq> [] \<and> length rep = length pat)
       \<or> (\<exists>m. v = Invisible m \<and> length m = 1)"
  using assms by (auto simp: MESSAGE_VARIATIONS_def)

lemma addMessageVariation_length:
  assumes "unitDraw (rnd k)" "unitDraw (rnd (k + 1))"
  shows "\<exists>out. fst (addMessageVariation rnd k msg) = Some out
            \<and> length msg \<le> length out \<and> length out \<le> length msg + 1"
proof -
  obtain v where v: "element MESSAGE_VARIATIONS \<lfloor>rnd k * real_of_int (int (length MESSAGE_VARIATIONS))\<rfloor> = Some v"
    and vin: "v \<in> set MESSAGE_VARIATIONS"
    using element_variations [OF assms(1)] by auto
  let ?p = "\<lfloor>rnd (k + 1) * real_of_int (int (length msg))\<rfloor>"
  have p: "0 \<le> ?p" "?p \<le> int (length msg)"
  proof -
    from assms(2) have r: "0 \<le> rnd (k+1)" "rnd (k+1) < 1" by (simp_all add: unitDraw_def)
    show "0 \<le> ?p" using r by simp
    have "rnd (k + 1) * real_of_int (int (length msg)) \<le> real_of_int (int (length msg))"
      using r by (simp add: mult_left_le_one_le)
    then show "?p \<le> int (length msg)" by (simp add: floor_le_iff) 
  qed
  from variation_cases [OF vin] show ?thesis
    using v p by (auto simp: addMessageVariation_def Let_def slice_prefix slice_suffix length_replaceFirst)
qed

lemma noop_draw: "unitDraw 0 \<and> addMessageVariation (\<lambda>_. 0) k msg = (Some msg, k + 1)"
  by (simp add: unitDraw_def addMessageVariation_def MESSAGE_VARIATIONS_def element_def)

lemma ascii_suffix: "ascii ''@c.us'' = [0x40, 0x63, 0x2E, 0x75, 0x73]"
  by (simp add: ascii_def)

lemma matchesPhone_iff: "matchesPhone s \<longleftrightarrow> phonePattern s"
proof
  assume m: "matchesPhone s"
  have "s = takeWhile isDigit s @ dropWhile isDigit s" by simp
  with m have "s = takeWhile isDigit s @ ascii ''@c.us''" by (simp add: matchesPhone_def)
  moreover have "\<forall>c \<in> set (takeWhile isDigit s). isDigit c"
    by (auto dest: set_takeWhileD)
  ultimately show "phonePattern s"
    using m unfolding phonePattern_def matchesPhone_def by blast
next
  assume "phonePattern s"
  then obtain ds where ds: "ds \<noteq> []" "\<forall>c \<in> set ds. isDigit c" "s = ds @ ascii ''@c.us''"
    unfolding phonePattern_def by blast
  have t: "takeWhile isDigit s = ds"
    using ds(2) by (simp add: ds(3) takeWhile_append2 ascii_suffix isDigit_def)
  have d: "dropWhile isDigit s = ascii ''@c.us''"
    using ds(2) by (simp add: ds(3) dropWhile_append2 ascii_suffix isDigit_def)
  show "matchesPhone s"
    using t d ds(1) by (simp add: matchesPhone_def)
qed

lemma validateParticipants_None:
  "validateParticipants ps = None \<longleftrightarrow>
     ps \<noteq> [] \<and> length ps \<le> 256 \<and> (\<forall>p \<in> set ps. matchesPhone p)"
  by (auto simp: validateParticipants_def Let_def filter_empty_conv)

lemma digits_nonempty: "digits n \<noteq> []"
  by (subst digits.simps) simp




lemma invisible_position:
  assumes "unitDraw (rnd (k + 1))"
    and "element MESSAGE_VARIATIONS \<lfloor>rnd k * real_of_int (int (length MESSAGE_VARIATIONS))\<rfloor>
           = Some (Invisible mark)"
    and "msg \<noteq> []"
  defines "n \<equiv> int (length msg)"
  defines "position \<equiv> \<lfloor>rnd (k + 1) * real_of_int n\<rfloor>"
  shows "0 \<le> position" "position < n"
    "addMessageVariation rnd k msg =
       (Some (take (nat position) msg @ mark @ drop (nat position) msg), k + 2)"
    "position = j \<longleftrightarrow> real_of_int j / real_of_int n \<le> rnd (k + 1)
                       \<and> rnd (k + 1) < real_of_int (j + 1) / real_of_int n"
proof -
  have n: "0 < n" using assms(3) by (simp add: n_def)
  show p0: "0 \<le> position" and p1: "position < n"
    using draw_index [OF assms(1) n] by (simp_all add: position_def)
  show "addMessageVariation rnd k msg =
       (Some (take (nat position) msg @ mark @ drop (nat position) msg), k + 2)"
    using p0 p1 assms(2)
    by (simp add: addMessageVariation_def Let_def slice_prefix slice_suffix position_def n_def)
  have "position = j \<longleftrightarrow> real_of_int j \<le> rnd (k + 1) * real_of_int n
                       \<and> rnd (k + 1) * real_of_int n < real_of_int j + 1"
    unfolding position_def by (rule floor_eq_iff)
  also have "\<dots> \<longleftrightarrow> real_of_int j / real_of_int n \<le> rnd (k + 1)
                       \<and> rnd (k + 1) < real_of_int (j + 1) / real_of_int n"
    using n by (simp add: pos_divide_le_eq pos_less_divide_eq)
  finally show "position = j \<longleftrightarrow> real_of_int j / real_of_int n \<le> rnd (k + 1)
                       \<and> rnd (k + 1) < real_of_int (j + 1) / real_of_int n" .
qed

subsection \<open>Loops\<close>

lemma forLoop_rule:
  assumes "I i s"
    and "\<And>j t. i \<le> j \<Longrightarrow> j < n \<Longrightarrow> I j t \<Longrightarrow>
           (case body j t of Normal t' \<Rightarrow> I (j + 1) t' | Threw e t' \<Rightarrow> Q e t')"
  shows "case forLoop i n body s of Normal s' \<Rightarrow> I (max i n) s' | Threw e s' \<Rightarrow> Q e s'"
  using assms
proof (induction i n body s rule: forLoop.induct)
  case (1 i n body s)
  show ?case
  proof (cases "i < n")
    case False
    with "1.prems"(1) show ?thesis
      by (simp add: forLoop.simps [of i n] max_def)
  next
    case True
    from "1.prems"(2) [OF order_refl True "1.prems"(1)]
    have step: "case body i s of Normal t' \<Rightarrow> I (i + 1) t' | Threw e t' \<Rightarrow> Q e t'" .
    show ?thesis
    proof (cases "body i s")
      case (Threw e t')
      with step True show ?thesis
        by (simp add: forLoop.simps [of i n])
    next
      case (Normal t')
      with step have inv: "I (i + 1) t'" by simp
      have "case forLoop (i + 1) n body t' of
              Normal s' \<Rightarrow> I (max (i + 1) n) s' | Threw e s' \<Rightarrow> Q e s'"
      proof (rule "1.IH" [OF True Normal inv])
        fix j t
        assume "i + 1 \<le> j" "j < n" "I j t"
        then show "case body j t of Normal t' \<Rightarrow> I (j + 1) t' | Threw e t' \<Rightarrow> Q e t'"
          using "1.prems"(2) [of j t] by simp
      qed
      moreover have "max (i + 1) n = max i n" using True by simp
      ultimately show ?thesis
        using True Normal by (simp add: forLoop.simps [of i n] cong: flow.case_cong)
    qed
  qed
qed

lemma forLoop_normal:
  assumes "I i s"
    and "\<And>j t. i \<le> j \<Longrightarrow> j < n \<Longrightarrow> I j t \<Longrightarrow> \<exists>t'. body j t = Normal t' \<and> I (j + 1) t'"
  shows "\<exists>s'. forLoop i n body s = Normal s' \<and> I (max i n) s'"
proof -
  have "case forLoop i n body s of Normal s' \<Rightarrow> I (max i n) s' | Threw e s' \<Rightarrow> False"
  proof (rule forLoop_rule [where I = I, OF assms(1)])
    fix j t
    assume "i \<le> j" "j < n" "I j t"
    from assms(2) [OF this] show "case body j t of Normal t' \<Rightarrow> I (j + 1) t' | Threw e t' \<Rightarrow> False"
      by auto
  qed
  then show ?thesis
    by (cases "forLoop i n body s") auto
qed

text \<open>The two nested loops of both orchestrators, when nothing throws.\<close>

lemma batches_normal:
  fixes unit :: "int \<Rightarrow> int \<Rightarrow> 's \<Rightarrow> 's flow"
    and batch :: "int \<Rightarrow> 's \<Rightarrow> 's flow"
    and I :: "int \<Rightarrow> int \<Rightarrow> 's \<Rightarrow> bool"
    and size :: "int \<Rightarrow> int"
    and T :: int
  assumes shape: "\<And>b s. batch b s =
             (case forLoop 0 (size b) (unit b) s of
                Threw e s' \<Rightarrow> Threw e s'
              | Normal s' \<Rightarrow> if b < T - 1 then cool b s' else Normal s')"
    and size: "\<And>b. 0 \<le> b \<Longrightarrow> b < T \<Longrightarrow> 0 \<le> size b"
    and init: "I 0 0 s0"
    and unit: "\<And>b i s. 0 \<le> b \<Longrightarrow> b < T \<Longrightarrow> 0 \<le> i \<Longrightarrow> i < size b \<Longrightarrow> I b i s
                 \<Longrightarrow> \<exists>s'. unit b i s = Normal s' \<and> I b (i + 1) s'"
    and cool: "\<And>b s. 0 \<le> b \<Longrightarrow> b < T - 1 \<Longrightarrow> I b (size b) s
                 \<Longrightarrow> \<exists>s'. cool b s = Normal s' \<and> I (b + 1) 0 s'"
    and last: "\<And>s. 0 < T \<Longrightarrow> I (T - 1) (size (T - 1)) s \<Longrightarrow> F s"
    and none: "T \<le> 0 \<Longrightarrow> F s0"
  shows "\<exists>s'. forLoop 0 T batch s0 = Normal s' \<and> F s'"
proof -
  define Outer where "Outer b s = (if b < T then I b 0 s else F s)" for b :: int and s
  have "\<exists>s'. forLoop 0 T batch s0 = Normal s' \<and> Outer (max 0 T) s'"
  proof (rule forLoop_normal [where I = Outer])
    show "Outer 0 s0" using init none by (simp add: Outer_def)
  next
    fix b s
    assume b: "0 \<le> b" "b < T" and "Outer b s"
    then have Ib: "I b 0 s" by (simp add: Outer_def)
    have "\<exists>s'. forLoop 0 (size b) (unit b) s = Normal s' \<and> I b (max 0 (size b)) s'"
      by (rule forLoop_normal [where I = "I b", OF Ib]) (use unit b in blast)
    then obtain s' where s': "forLoop 0 (size b) (unit b) s = Normal s'" "I b (size b) s'"
      using size [OF b] by (auto simp: max_def)
    show "\<exists>t'. batch b s = Normal t' \<and> Outer (b + 1) t'"
    proof (cases "b < T - 1")
      case True
      from cool [OF b(1) True s'(2)] obtain t' where "cool b s' = Normal t'" "I (b + 1) 0 t'"
        by blast
      then show ?thesis using True s'(1) by (simp add: shape Outer_def)
    next
      case False
      with b have "b = T - 1" by simp
      with last s'(2) b have "F s'" by simp
      then show ?thesis using False s'(1) b by (simp add: shape Outer_def)
    qed
  qed
  then show ?thesis
    by (auto simp: Outer_def max_def split: if_splits)
qed

subsection \<open>Schedules and steps\<close>

lemma schedule_scheduled: "schedule label N B T = scheduled label N B T T"
  by (simp add: schedule_def scheduled_def)

lemma scheduled_0: "b \<le> 0 \<Longrightarrow> scheduled label N B T b = []"
  by (simp add: scheduled_def)

lemma scheduled_step:
  "0 \<le> b \<Longrightarrow> scheduled label N B T (b + 1) =
     scheduled label N B T b @ map (\<lambda>k. Call (label k)) (batchUnits N B b)
       @ (if b < T - 1 then [Pause] else [])"
  by (simp add: scheduled_def upto_rec2 [of 0 b])

lemma totalBatches_iff:
  assumes "0 < B"
  shows "b < \<lceil>real_of_int N / real_of_int B\<rceil> \<longleftrightarrow> b * B < N"
proof -
  have "b < \<lceil>real_of_int N / real_of_int B\<rceil> \<longleftrightarrow> real_of_int b < real_of_int N / real_of_int B"
    by (rule less_ceiling_iff)
  also have "\<dots> \<longleftrightarrow> real_of_int b * real_of_int B < real_of_int N"
    using assms by (simp add: pos_less_divide_eq)
  also have "\<dots> \<longleftrightarrow> b * B < N"
    by (metis of_int_less_iff of_int_mult)
  finally show ?thesis .
qed

lemma totalBatches_cover:
  assumes "0 < B"
  shows "N \<le> \<lceil>real_of_int N / real_of_int B\<rceil> * B"
  using totalBatches_iff [OF assms, of "\<lceil>real_of_int N / real_of_int B\<rceil>" N] by simp

lemma marks_append: "marks (xs @ ys) = marks xs @ marks ys"
  by (induction xs rule: marks.induct) simp_all

lemma waits_append: "waits (xs @ ys) = waits xs @ waits ys"
  by (induction xs rule: waits.induct) simp_all

lemma cooldownEvents_append: "cooldownEvents (xs @ ys) = cooldownEvents xs @ cooldownEvents ys"
  by (induction xs rule: cooldownEvents.induct) simp_all

lemma notify_quiet:
  "quiet cb \<Longrightarrow> notify cb ev s = Normal (s\<lparr>trace := trace s @ told cb ev\<rparr>)"
  by (auto simp: quiet_def notify_def told_def emit_def split: option.splits)

lemma tryCreateGroup_fields:
  "log (tryCreateGroup cl st rnd ps k name num s) =
     log s @ [groupOutcome name num (createGroup cl (calls s) name ps)]"
  "calls (tryCreateGroup cl st rnd ps k name num s) = calls s + 1"
  "trace (tryCreateGroup cl st rnd ps k name num s) =
     trace s @ (if k > 0 then [UnitDelay (waitTime st k (rnd (draws s)))] else [])
       @ [CreateGroup name ps]"
  "failed (tryCreateGroup cl st rnd ps k name num s) =
     failed s + (if g_success (groupOutcome name num (createGroup cl (calls s) name ps)) then 0 else 1)"
  "success (tryCreateGroup cl st rnd ps k name num s) =
     success s + (case createGroup cl (calls s) name ps of Rejects m \<Rightarrow> 0 | Resolves h \<Rightarrow> 1)"
  by (auto simp: tryCreateGroup_def Let_def emit_def groupOutcome_def groupFailed_def groupCreated_def
           split: response.splits option.splits)

lemma sent_append: "sent (xs @ ys) = sent xs @ sent ys"
  by (induction xs rule: sent.induct) simp_all

lemma groupUnit_quiet:
  assumes "quiet cb"
  shows "\<exists>s'. groupUnit cl groupPrefix count ps st cb rnd maxDigits T b i s = Normal s'
    \<and> log s' = log s @ [groupOutcome (formatGroupName st groupPrefix maxDigits (startingNumber st + (b * batchSize st + i)))
                          (startingNumber st + (b * batchSize st + i))
                          (createGroup cl (calls s)
                             (formatGroupName st groupPrefix maxDigits (startingNumber st + (b * batchSize st + i))) ps)]
    \<and> calls s' = calls s + 1
    \<and> failed s' = failed s + (if g_success (last (log s')) then 0 else 1)
    \<and> (wellFormed cl \<longrightarrow> success s' = success s + (if g_success (last (log s')) then 1 else 0))
    \<and> marks (trace s') = marks (trace s)
         @ [Call (formatGroupName st groupPrefix maxDigits (startingNumber st + (b * batchSize st + i)))]
    \<and> cooldownEvents (trace s') = cooldownEvents (trace s)
    \<and> length (waits (trace s')) = length (waits (trace s)) + (if b * batchSize st + i > 0 then 1 else 0)"
  by (auto simp: groupUnit_def Let_def notify_quiet [OF assms] tryCreateGroup_fields
        marks_append waits_append cooldownEvents_append told_def wellFormed_def
        groupOutcome_def groupFailed_def groupCreated_def split: option.splits response.splits)

lemma groupCool_quiet:
  assumes "quiet cb"
  shows "\<exists>s'. (case notify cb (CooldownProgress c t (success s) (failed s) secs nb tb) s of
                 Threw e s'' \<Rightarrow> Threw e s''
               | Normal s'' \<Rightarrow> Normal (emit (BatchCooldown ms) s'')) = Normal s'
    \<and> log s' = log s \<and> calls s' = calls s \<and> failed s' = failed s \<and> success s' = success s
    \<and> marks (trace s') = marks (trace s) @ [Pause]
    \<and> length (cooldownEvents (trace s')) = length (cooldownEvents (trace s)) + (if cb = None then 0 else 1)
    \<and> waits (trace s') = waits (trace s)
    \<and> sent (trace s') = sent (trace s)"
  by (simp add: notify_quiet [OF assms] emit_def marks_append waits_append cooldownEvents_append
        sent_append told_def split: option.splits)

lemma group_batches:
  fixes st :: settings and count :: int and groupPrefix :: ustring and maxDigits :: int
  assumes q: "quiet cb" and B: "0 < batchSize st" and N: "0 \<le> count"
  defines "T \<equiv> \<lceil>real_of_int count / real_of_int (batchSize st)\<rceil>"
  defines "name \<equiv> \<lambda>k. formatGroupName st groupPrefix maxDigits (startingNumber st + k)"
  shows "\<exists>s. forLoop 0 T (groupBatch cl groupPrefix count ps st cb rnd maxDigits T) initial = Normal s
      \<and> length (log s) = nat count \<and> calls s = nat count
      \<and> (\<forall>k < nat count. log s ! k =
            groupOutcome (name (int k)) (startingNumber st + int k)
              (createGroup cl k (name (int k)) ps))
      \<and> failed s = length (filter (\<lambda>e. \<not> g_success e) (log s))
      \<and> (wellFormed cl \<longrightarrow> success s = length (filter g_success (log s)))
      \<and> marks (trace s) = schedule name count (batchSize st) T
      \<and> length (cooldownEvents (trace s)) = (if cb = None then 0 else nat (T - 1))
      \<and> length (waits (trace s)) = nat count - 1"
proof -
  define Bz where "Bz = batchSize st"
  define size where "size b = min (b * Bz + Bz) count - b * Bz" for b
  define P where "P m cd s \<longleftrightarrow>
        length (log s) = nat m \<and> calls s = nat m
      \<and> (\<forall>k < nat m. log s ! k =
            groupOutcome (name (int k)) (startingNumber st + int k)
              (createGroup cl k (name (int k)) ps))
      \<and> failed s = length (filter (\<lambda>e. \<not> g_success e) (log s))
      \<and> (wellFormed cl \<longrightarrow> success s = length (filter g_success (log s)))
      \<and> length (cooldownEvents (trace s)) = (if cb = None then 0 else nat cd)
      \<and> length (waits (trace s)) = nat m - 1" for m cd :: int and s :: "group_outcome state"
  define I where "I b i s \<longleftrightarrow> P (b * Bz + i) b s
      \<and> marks (trace s) = scheduled name count Bz T b
           @ map (\<lambda>k. Call (name k)) [b * Bz .. b * Bz + i - 1]" for b i s
  define F where "F s \<longleftrightarrow> P count (T - 1) s \<and> marks (trace s) = schedule name count Bz T" for s
  have Bz: "0 < Bz" using B by (simp add: Bz_def)
  have T_iff: "\<And>b. b < T \<longleftrightarrow> b * Bz < count"
    unfolding T_def Bz_def [symmetric] by (rule totalBatches_iff [OF Bz])
  have T_cover: "count \<le> T * Bz"
    unfolding T_def Bz_def [symmetric] by (rule totalBatches_cover [OF Bz])
  have full: "(b + 1) * Bz < count" if "b < T - 1" for b
    using that T_iff [of "b + 1"] by simp
  have size_full: "size b = Bz" if "b < T - 1" for b
    using full [OF that] by (simp add: size_def algebra_simps)
  have size_last: "(T - 1) * Bz + size (T - 1) = count"
    using T_cover by (simp add: size_def algebra_simps)
  have "\<exists>s'. forLoop 0 T (groupBatch cl groupPrefix count ps st cb rnd maxDigits T) initial = Normal s' \<and> F s'"
  proof (rule batches_normal [where I = I and size = size
        and unit = "groupUnit cl groupPrefix count ps st cb rnd maxDigits T"
        and cool = "\<lambda>b s'. case notify cb (CooldownProgress (min (b * Bz + Bz) count) count
                                  (success s') (failed s') (batchCooldownSeconds st) (b + 2) T) s' of
                        Threw e s'' \<Rightarrow> Threw e s''
                      | Normal s'' \<Rightarrow> Normal (emit (BatchCooldown (batchCooldownSeconds st * 1000)) s'')"])
    fix b s
    show "groupBatch cl groupPrefix count ps st cb rnd maxDigits T b s =
       (case forLoop 0 (size b) (groupUnit cl groupPrefix count ps st cb rnd maxDigits T b) s of
          Threw e s' \<Rightarrow> Threw e s'
        | Normal s' \<Rightarrow>
            if b < T - 1
            then case notify cb (CooldownProgress (min (b * Bz + Bz) count) count
                                  (success s') (failed s') (batchCooldownSeconds st) (b + 2) T) s' of
                        Threw e s'' \<Rightarrow> Threw e s''
                      | Normal s'' \<Rightarrow> Normal (emit (BatchCooldown (batchCooldownSeconds st * 1000)) s'')
            else Normal s')"
      unfolding groupBatch_def Let_def size_def Bz_def by (rule refl)
  next
    fix b assume "0 \<le> b" "b < T"
    then show "0 \<le> size b"
      using T_iff [of b] Bz by (simp add: size_def)
  next
    show "I 0 0 (initial :: group_outcome state)"
      by (simp add: I_def P_def initial_def scheduled_0)
  next
    fix b i s
    assume b: "0 \<le> b" "b < T" and i: "0 \<le> i" "i < size b" and inv: "I b i s"
    have m: "0 \<le> b * Bz + i" using b(1) i(1) Bz by simp
    from groupUnit_quiet [OF q, where cl = cl and groupPrefix = groupPrefix and count = count
        and ps = ps and st = st and rnd = rnd and maxDigits = maxDigits and T = T and b = b
        and i = i and s = s]
    obtain s' where s': "groupUnit cl groupPrefix count ps st cb rnd maxDigits T b i s = Normal s'"
      and lg: "log s' = log s @ [groupOutcome (name (b * Bz + i)) (startingNumber st + (b * Bz + i))
                          (createGroup cl (calls s) (name (b * Bz + i)) ps)]"
      and cs: "calls s' = calls s + 1"
      and fl: "failed s' = failed s + (if g_success (last (log s')) then 0 else 1)"
      and sc: "wellFormed cl \<longrightarrow> success s' = success s + (if g_success (last (log s')) then 1 else 0)"
      and mk: "marks (trace s') = marks (trace s) @ [Call (name (b * Bz + i))]"
      and ce: "cooldownEvents (trace s') = cooldownEvents (trace s)"
      and wt: "length (waits (trace s')) = length (waits (trace s)) + (if b * Bz + i > 0 then 1 else 0)"
      unfolding name_def Bz_def by blast
    from inv have Pm: "P (b * Bz + i) b s"
      and mks: "marks (trace s) = scheduled name count Bz T b
           @ map (\<lambda>k. Call (name k)) [b * Bz .. b * Bz + i - 1]"
      by (simp_all add: I_def)
    have nat_suc: "nat (b * Bz + (i + 1)) = Suc (nat (b * Bz + i))"
      using m by linarith
    have "P (b * Bz + (i + 1)) b s'"
      unfolding P_def
    proof (intro conjI allI)
      show "length (log s') = nat (b * Bz + (i + 1))"
        using Pm by (simp add: lg nat_suc P_def)
      show "calls s' = nat (b * Bz + (i + 1))"
        using Pm by (simp add: cs nat_suc P_def)
      show "failed s' = length (filter (\<lambda>e. \<not> g_success e) (log s'))"
        using Pm by (simp add: fl P_def) (simp add: lg)
      show "wellFormed cl \<longrightarrow> success s' = length (filter g_success (log s'))"
        using Pm sc by (simp add: P_def) (simp add: lg)
      show "length (cooldownEvents (trace s')) = (if cb = None then 0 else nat b)"
        using Pm by (simp add: ce P_def)
      show "length (waits (trace s')) = nat (b * Bz + (i + 1)) - 1"
        using Pm m by (simp add: wt nat_suc P_def)
    next
      fix k
      show "k < nat (b * Bz + (i + 1)) \<longrightarrow> log s' ! k = groupOutcome (name (int k)) (startingNumber st + int k)
              (createGroup cl k (name (int k)) ps)"
      proof
        assume k: "k < nat (b * Bz + (i + 1))"
        show "log s' ! k = groupOutcome (name (int k)) (startingNumber st + int k)
              (createGroup cl k (name (int k)) ps)"
        proof (cases "k < nat (b * Bz + i)")
          case True
          then show ?thesis using Pm by (simp add: lg nth_append P_def)
        next
          case False
          with k have "k = nat (b * Bz + i)" by (simp add: nat_suc)
          then show ?thesis using Pm m by (simp add: lg nth_append P_def)
        qed
      qed
    qed
    moreover have "marks (trace s') = scheduled name count Bz T b
           @ map (\<lambda>k. Call (name k)) [b * Bz .. b * Bz + (i + 1) - 1]"
      using i(1) by (simp add: mk mks upto_rec2 [of "b * Bz" "b * Bz + i"])
    ultimately show "\<exists>s'. groupUnit cl groupPrefix count ps st cb rnd maxDigits T b i s = Normal s'
        \<and> I b (i + 1) s'"
      using s' by (simp add: I_def)
  next
    fix b s
    assume b: "0 \<le> b" "b < T - 1" and inv: "I b (size b) s"
    from groupCool_quiet [OF q, where c = "min (b * Bz + Bz) count" and t = count and s = s
        and secs = "batchCooldownSeconds st" and nb = "b + 2" and tb = T
        and ms = "batchCooldownSeconds st * 1000"]
    obtain s' where s': "(case notify cb (CooldownProgress (min (b * Bz + Bz) count) count
                                  (success s) (failed s) (batchCooldownSeconds st) (b + 2) T) s of
                        Threw e s'' \<Rightarrow> Threw e s''
                      | Normal s'' \<Rightarrow> Normal (emit (BatchCooldown (batchCooldownSeconds st * 1000)) s'')) = Normal s'"
      and same: "log s' = log s" "calls s' = calls s" "failed s' = failed s" "success s' = success s"
      and mk: "marks (trace s') = marks (trace s) @ [Pause]"
      and ce: "length (cooldownEvents (trace s')) = length (cooldownEvents (trace s)) + (if cb = None then 0 else 1)"
      and wt: "waits (trace s') = waits (trace s)"
      by blast
    have sz: "size b = Bz" by (rule size_full [OF b(2)])
    from inv have Pm: "P (b * Bz + Bz) b s"
      and mks: "marks (trace s) = scheduled name count Bz T b
           @ map (\<lambda>k. Call (name k)) [b * Bz .. b * Bz + Bz - 1]"
      by (simp_all add: I_def sz)
    have units: "batchUnits count Bz b = [b * Bz .. b * Bz + Bz - 1]"
      using full [OF b(2)] by (simp add: batchUnits_def algebra_simps)
    have "P ((b + 1) * Bz + 0) (b + 1) s'"
      using Pm b(1) by (simp add: P_def same ce wt algebra_simps nat_add_distrib)
    moreover have "marks (trace s') = scheduled name count Bz T (b + 1)
           @ map (\<lambda>k. Call (name k)) [(b + 1) * Bz .. (b + 1) * Bz + 0 - 1]"
      using b by (simp add: mk mks scheduled_step units)
    ultimately show "\<exists>s'. (case notify cb (CooldownProgress (min (b * Bz + Bz) count) count
                                  (success s) (failed s) (batchCooldownSeconds st) (b + 2) T) s of
                        Threw e s'' \<Rightarrow> Threw e s''
                      | Normal s'' \<Rightarrow> Normal (emit (BatchCooldown (batchCooldownSeconds st * 1000)) s'')) = Normal s'
                \<and> I (b + 1) 0 s'"
      using s' by (simp add: I_def)
  next
    fix s
    assume T: "0 < T" and inv: "I (T - 1) (size (T - 1)) s"
    from inv have Pm: "P count (T - 1) s"
      and mks: "marks (trace s) = scheduled name count Bz T (T - 1)
           @ map (\<lambda>k. Call (name k)) [(T - 1) * Bz .. count - 1]"
      by (simp_all add: I_def size_last)
    have units: "batchUnits count Bz (T - 1) = [(T - 1) * Bz .. count - 1]"
      using T_cover by (simp add: batchUnits_def algebra_simps)
    have "scheduled name count Bz T (T - 1 + 1) = marks (trace s)"
      using T by (subst scheduled_step) (simp_all add: mks units)
    then show "F s"
      using Pm by (simp add: F_def schedule_scheduled)
  next
    assume "T \<le> 0"
    then have "count \<le> 0" using T_cover Bz
      by (meson mult_le_0_iff order_trans not_less order_less_imp_le)
    with N have "count = 0" by simp
    then show "F (initial :: group_outcome state)"
      using \<open>T \<le> 0\<close> by (simp add: F_def P_def initial_def schedule_def)
  qed
  then show ?thesis
    by (auto simp: F_def P_def Bz_def)
qed

lemma answered_snoc:
  "answered cl (cs @ [(r, t)]) = answered cl cs @ [messageOutcome r (sendMessage cl (length cs) r t)]"
  by (simp add: answered_def enumerate_append_eq)

lemma length_answered: "length (answered cl cs) = length cs"
  by (simp add: answered_def)

lemma slice_inner:
  assumes "0 \<le> a" "a \<le> e" "e \<le> int (length xs)"
  shows "slice xs a e = take (nat (e - a)) (drop (nat a) xs)"
    and "int (length (slice xs a e)) = e - a"
    and "0 \<le> i \<Longrightarrow> i < e - a \<Longrightarrow> slice xs a e ! nat i = xs ! nat (a + i)"
proof -
  show eq: "slice xs a e = take (nat (e - a)) (drop (nat a) xs)"
    using assms by (simp add: slice_def Let_def min_def)
  show "int (length (slice xs a e)) = e - a"
    using assms by (simp add: eq)
  show "slice xs a e ! nat i = xs ! nat (a + i)" if "0 \<le> i" "i < e - a"
    using assms that by (simp add: eq nat_add_distrib)
qed

lemma trySendMessage_fields:
  assumes "unitDraws rnd"
  shows "\<exists>text. 
      trace (trySendMessage cl message d rnd tp recipient s) =
        trace s @ (if tp > 0 then [UnitDelay (getRandomizedDelay d (rnd (draws s)))] else [])
          @ [SendMessage recipient text]
    \<and> log (trySendMessage cl message d rnd tp recipient s) =
        log s @ [messageOutcome recipient (sendMessage cl (calls s) recipient text)]
    \<and> calls (trySendMessage cl message d rnd tp recipient s) = calls s + 1
    \<and> failed (trySendMessage cl message d rnd tp recipient s) =
        failed s + (if m_success (messageOutcome recipient (sendMessage cl (calls s) recipient text))
                    then 0 else 1)
    \<and> (wellFormed cl \<longrightarrow> success (trySendMessage cl message d rnd tp recipient s) =
        success s + (if m_success (messageOutcome recipient (sendMessage cl (calls s) recipient text))
                    then 1 else 0))"
proof -
  define k where "k = (if tp > 0 then draws s + 1 else draws s)"
  have "unitDraw (rnd k)" "unitDraw (rnd (k + 1))"
    using assms by (simp_all add: unitDraws_def)
  from addMessageVariation_length [OF this, of message]
  obtain out where out: "fst (addMessageVariation rnd k message) = Some out" by blast
  then obtain k' where v: "addMessageVariation rnd k message = (Some out, k')"
    by (cases "addMessageVariation rnd k message") auto
  show ?thesis
    using v
    by (intro exI [of _ out])
       (auto simp: trySendMessage_def Let_def emit_def k_def messageOutcome_def
          messageFailed_def messageSent_def wellFormed_def split: response.splits option.splits)
qed

lemma messageUnit_quiet:
  assumes "quiet cb" and "unitDraws rnd"
  shows "\<exists>s' text. messageUnit cl message recipients d cb rnd T b i s = Normal s'
    \<and> sent (trace s') = sent (trace s)
         @ [(slice recipients (b * BATCH_SIZE)
               (min (b * BATCH_SIZE + BATCH_SIZE) (int (length recipients))) ! nat i, text)]
    \<and> log s' = log s @ [messageOutcome
          (slice recipients (b * BATCH_SIZE)
               (min (b * BATCH_SIZE + BATCH_SIZE) (int (length recipients))) ! nat i)
          (sendMessage cl (calls s) 
            (slice recipients (b * BATCH_SIZE)
               (min (b * BATCH_SIZE + BATCH_SIZE) (int (length recipients))) ! nat i) text)]
    \<and> calls s' = calls s + 1
    \<and> failed s' = failed s + (if m_success (last (log s')) then 0 else 1)
    \<and> (wellFormed cl \<longrightarrow> success s' = success s + (if m_success (last (log s')) then 1 else 0))
    \<and> marks (trace s') = marks (trace s)
         @ [Call (slice recipients (b * BATCH_SIZE)
               (min (b * BATCH_SIZE + BATCH_SIZE) (int (length recipients))) ! nat i)]
    \<and> cooldownEvents (trace s') = cooldownEvents (trace s)
    \<and> length (waits (trace s')) = length (waits (trace s)) + (if b * BATCH_SIZE + i > 0 then 1 else 0)"
proof -
  let ?r = "slice recipients (b * BATCH_SIZE)
               (min (b * BATCH_SIZE + BATCH_SIZE) (int (length recipients))) ! nat i"
  from trySendMessage_fields [OF assms(2), where cl = cl and message = message and d = d
      and tp = "b * BATCH_SIZE + i" and recipient = "?r" and s = s]
  obtain sentText where t:
    "trace (trySendMessage cl message d rnd (b * BATCH_SIZE + i) ?r s) =
        trace s @ (if b * BATCH_SIZE + i > 0 then [UnitDelay (getRandomizedDelay d (rnd (draws s)))] else [])
          @ [SendMessage ?r sentText]"
    "log (trySendMessage cl message d rnd (b * BATCH_SIZE + i) ?r s) =
        log s @ [messageOutcome ?r (sendMessage cl (calls s) ?r sentText)]"
    "calls (trySendMessage cl message d rnd (b * BATCH_SIZE + i) ?r s) = calls s + 1"
    "failed (trySendMessage cl message d rnd (b * BATCH_SIZE + i) ?r s) =
        failed s + (if m_success (messageOutcome ?r (sendMessage cl (calls s) ?r sentText)) then 0 else 1)"
    "wellFormed cl \<longrightarrow> success (trySendMessage cl message d rnd (b * BATCH_SIZE + i) ?r s) =
        success s + (if m_success (messageOutcome ?r (sendMessage cl (calls s) ?r sentText)) then 1 else 0)"
    by blast
  show ?thesis
    by (intro exI [of _ "(trySendMessage cl message d rnd (b * BATCH_SIZE + i) ?r s)
          \<lparr>trace := trace (trySendMessage cl message d rnd (b * BATCH_SIZE + i) ?r s)
             @ told cb (MessageProgress (b * BATCH_SIZE + i + 1) (int (length recipients))
                 (success (trySendMessage cl message d rnd (b * BATCH_SIZE + i) ?r s))
                 (failed (trySendMessage cl message d rnd (b * BATCH_SIZE + i) ?r s))
                 ?r (b + 1) T)\<rparr>"] exI [of _ sentText])
       (simp add: messageUnit_def Let_def notify_quiet [OF assms(1)] t
          marks_append waits_append cooldownEvents_append sent_append told_def split: option.splits)
qed

lemma message_batches:
  fixes recipients :: "ustring list"
  assumes q: "quiet cb" and u: "unitDraws rnd"
  defines "N \<equiv> int (length recipients)"
  defines "T \<equiv> \<lceil>real (length recipients) / real_of_int BATCH_SIZE\<rceil>"
  defines "name \<equiv> \<lambda>k. recipients ! nat k"
  shows "\<exists>s. forLoop 0 T (messageBatch cl message recipients d cb rnd T) initial = Normal s
      \<and> calls s = length recipients
      \<and> map fst (sent (trace s)) = recipients
      \<and> log s = answered cl (sent (trace s))
      \<and> failed s = length (filter (\<lambda>e. \<not> m_success e) (log s))
      \<and> (wellFormed cl \<longrightarrow> success s = length (filter m_success (log s)))
      \<and> marks (trace s) = schedule name N BATCH_SIZE T
      \<and> length (cooldownEvents (trace s)) = (if cb = None then 0 else nat (T - 1))
      \<and> length (waits (trace s)) = length recipients - 1"
proof -
  define Bz where "Bz = BATCH_SIZE"
  define size where "size b = int (length (slice recipients (b * Bz) (min (b * Bz + Bz) N)))" for b
  define P where "P m cd s \<longleftrightarrow>
        calls s = nat m
      \<and> map fst (sent (trace s)) = take (nat m) recipients
      \<and> log s = answered cl (sent (trace s))
      \<and> failed s = length (filter (\<lambda>e. \<not> m_success e) (log s))
      \<and> (wellFormed cl \<longrightarrow> success s = length (filter m_success (log s)))
      \<and> length (cooldownEvents (trace s)) = (if cb = None then 0 else nat cd)
      \<and> length (waits (trace s)) = nat m - 1" for m cd :: int and s :: "message_outcome state"
  define I where "I b i s \<longleftrightarrow> P (b * Bz + i) b s
      \<and> marks (trace s) = scheduled name N Bz T b
           @ map (\<lambda>k. Call (name k)) [b * Bz .. b * Bz + i - 1]" for b i s
  define F where "F s \<longleftrightarrow> P N (T - 1) s \<and> marks (trace s) = schedule name N Bz T" for s
  have Bz: "0 < Bz" by (simp add: Bz_def BATCH_SIZE_def)
  have N: "0 \<le> N" by (simp add: N_def)
  have T_eq: "T = \<lceil>real_of_int N / real_of_int Bz\<rceil>"
    by (simp add: T_def N_def Bz_def)
  have T_iff: "\<And>b. b < T \<longleftrightarrow> b * Bz < N"
    unfolding T_eq by (rule totalBatches_iff [OF Bz])
  have T_cover: "N \<le> T * Bz"
    unfolding T_eq by (rule totalBatches_cover [OF Bz])
  have full: "(b + 1) * Bz < N" if "b < T - 1" for b
    using that T_iff [of "b + 1"] by simp
  have size_eq: "size b = min (b * Bz + Bz) N - b * Bz" if "0 \<le> b" "b < T" for b
  proof -
    have "0 \<le> b * Bz" using that(1) Bz by simp
    moreover have "b * Bz \<le> min (b * Bz + Bz) N" using T_iff [of b] that(2) Bz by simp
    moreover have "min (b * Bz + Bz) N \<le> int (length recipients)" by (simp add: N_def)
    ultimately show ?thesis unfolding size_def by (rule slice_inner(2))
  qed
  have nth_eq: "slice recipients (b * Bz) (min (b * Bz + Bz) N) ! nat i = name (b * Bz + i)"
    if "0 \<le> b" "b < T" "0 \<le> i" "i < size b" for b i
  proof -
    have "0 \<le> b * Bz" using that(1) Bz by simp
    moreover have "b * Bz \<le> min (b * Bz + Bz) N" using T_iff [of b] that(2) Bz by simp
    moreover have "min (b * Bz + Bz) N \<le> int (length recipients)" by (simp add: N_def)
    moreover have "i < min (b * Bz + Bz) N - b * Bz" using that(4) size_eq [OF that(1,2)] by simp
    ultimately show ?thesis unfolding name_def using that(3) by (intro slice_inner(3))
  qed
  have size_full: "size b = Bz" if "0 \<le> b" "b < T - 1" for b
    using full [OF that(2)] size_eq [of b] that by (simp add: algebra_simps)
  have size_last: "(T - 1) * Bz + size (T - 1) = N" if "0 < T"
    using T_cover size_eq [of "T - 1"] that by (simp add: algebra_simps)
  have "\<exists>s'. forLoop 0 T (messageBatch cl message recipients d cb rnd T) initial = Normal s' \<and> F s'"
  proof (rule batches_normal [where I = I and size = size
        and unit = "messageUnit cl message recipients d cb rnd T"
        and cool = "\<lambda>b s'. case notify cb (CooldownProgress (min (b * Bz + Bz) N) N
                                  (success s') (failed s') (BATCH_COOLDOWN div 1000) (b + 2) T) s' of
                        Threw e s'' \<Rightarrow> Threw e s''
                      | Normal s'' \<Rightarrow> Normal (emit (BatchCooldown BATCH_COOLDOWN) s'')"])
    fix b s
    show "messageBatch cl message recipients d cb rnd T b s =
       (case forLoop 0 (size b) (messageUnit cl message recipients d cb rnd T b) s of
          Threw e s' \<Rightarrow> Threw e s'
        | Normal s' \<Rightarrow>
            if b < T - 1
            then case notify cb (CooldownProgress (min (b * Bz + Bz) N) N
                                  (success s') (failed s') (BATCH_COOLDOWN div 1000) (b + 2) T) s' of
                        Threw e s'' \<Rightarrow> Threw e s''
                      | Normal s'' \<Rightarrow> Normal (emit (BatchCooldown BATCH_COOLDOWN) s'')
            else Normal s')"
      unfolding messageBatch_def Let_def size_def Bz_def N_def by (rule refl)
  next
    fix b :: int assume "0 \<le> b" "b < T"
    show "0 \<le> size b" by (simp add: size_def)
  next
    show "I 0 0 (initial :: message_outcome state)"
      by (simp add: I_def P_def initial_def scheduled_0 answered_def)
  next
    fix b i s
    assume b: "0 \<le> b" "b < T" and i: "0 \<le> i" "i < size b" and inv: "I b i s"
    have m: "0 \<le> b * Bz + i" using b(1) i(1) Bz by simp
    have mN: "b * Bz + i < N" using i(2) size_eq [OF b] by simp
    from messageUnit_quiet [OF q u, where cl = cl and message = message and recipients = recipients
        and d = d and T = T and b = b and i = i and s = s]
    obtain s' sentText where s': "messageUnit cl message recipients d cb rnd T b i s = Normal s'"
      and sn: "sent (trace s') = sent (trace s) @ [(name (b * Bz + i), sentText)]"
      and lg: "log s' = log s @ [messageOutcome (name (b * Bz + i))
                          (sendMessage cl (calls s) (name (b * Bz + i)) sentText)]"
      and cs: "calls s' = calls s + 1"
      and fl: "failed s' = failed s + (if m_success (last (log s')) then 0 else 1)"
      and sc: "wellFormed cl \<longrightarrow> success s' = success s + (if m_success (last (log s')) then 1 else 0)"
      and mk: "marks (trace s') = marks (trace s) @ [Call (name (b * Bz + i))]"
      and ce: "cooldownEvents (trace s') = cooldownEvents (trace s)"
      and wt: "length (waits (trace s')) = length (waits (trace s)) + (if b * Bz + i > 0 then 1 else 0)"
      unfolding nth_eq [OF b i, unfolded Bz_def N_def] Bz_def by blast
    from inv have Pm: "P (b * Bz + i) b s"
      and mks: "marks (trace s) = scheduled name N Bz T b
           @ map (\<lambda>k. Call (name k)) [b * Bz .. b * Bz + i - 1]"
      by (simp_all add: I_def)
    have nat_suc: "nat (b * Bz + (i + 1)) = Suc (nat (b * Bz + i))"
      using m by linarith
    have lt: "nat (b * Bz + i) < length recipients"
      using m mN by (simp add: N_def)
    have len: "length (sent (trace s)) = nat (b * Bz + i)"
    proof -
      have "length (map fst (sent (trace s))) = length (take (nat (b * Bz + i)) recipients)"
        using Pm by (simp add: P_def)
      then show ?thesis using lt by simp
    qed
    have "P (b * Bz + (i + 1)) b s'"
      unfolding P_def
    proof (intro conjI)
      show "calls s' = nat (b * Bz + (i + 1))"
        using Pm by (simp add: cs nat_suc P_def)
      show "map fst (sent (trace s')) = take (nat (b * Bz + (i + 1))) recipients"
        using Pm lt by (simp add: sn nat_suc P_def take_Suc_conv_app_nth name_def)
      show "log s' = answered cl (sent (trace s'))"
        using Pm by (simp add: lg sn answered_snoc len P_def)
      show "failed s' = length (filter (\<lambda>e. \<not> m_success e) (log s'))"
        using Pm by (simp add: fl P_def) (simp add: lg)
      show "wellFormed cl \<longrightarrow> success s' = length (filter m_success (log s'))"
        using Pm sc by (simp add: P_def) (simp add: lg)
      show "length (cooldownEvents (trace s')) = (if cb = None then 0 else nat b)"
        using Pm by (simp add: ce P_def)
      show "length (waits (trace s')) = nat (b * Bz + (i + 1)) - 1"
        using Pm m by (simp add: wt nat_suc P_def)
    qed
    moreover have "marks (trace s') = scheduled name N Bz T b
           @ map (\<lambda>k. Call (name k)) [b * Bz .. b * Bz + (i + 1) - 1]"
      using i(1) by (simp add: mk mks upto_rec2 [of "b * Bz" "b * Bz + i"])
    ultimately show "\<exists>s'. messageUnit cl message recipients d cb rnd T b i s = Normal s'
        \<and> I b (i + 1) s'"
      using s' by (simp add: I_def)
  next
    fix b s
    assume b: "0 \<le> b" "b < T - 1" and inv: "I b (size b) s"
    from groupCool_quiet [OF q, where c = "min (b * Bz + Bz) N" and t = N and s = s
        and secs = "BATCH_COOLDOWN div 1000" and nb = "b + 2" and tb = T
        and ms = "BATCH_COOLDOWN"]
    obtain s' where s': "(case notify cb (CooldownProgress (min (b * Bz + Bz) N) N
                                  (success s) (failed s) (BATCH_COOLDOWN div 1000) (b + 2) T) s of
                        Threw e s'' \<Rightarrow> Threw e s''
                      | Normal s'' \<Rightarrow> Normal (emit (BatchCooldown BATCH_COOLDOWN) s'')) = Normal s'"
      and same: "log s' = log s" "calls s' = calls s" "failed s' = failed s" "success s' = success s"
      and mk: "marks (trace s') = marks (trace s) @ [Pause]"
      and ce: "length (cooldownEvents (trace s')) = length (cooldownEvents (trace s)) + (if cb = None then 0 else 1)"
      and wt: "waits (trace s') = waits (trace s)"
      and sn: "sent (trace s') = sent (trace s)"
      by blast
    have sz: "size b = Bz" by (rule size_full [OF b])
    from inv have Pm: "P (b * Bz + Bz) b s"
      and mks: "marks (trace s) = scheduled name N Bz T b
           @ map (\<lambda>k. Call (name k)) [b * Bz .. b * Bz + Bz - 1]"
      by (simp_all add: I_def sz)
    have units: "batchUnits N Bz b = [b * Bz .. b * Bz + Bz - 1]"
      using full [OF b(2)] by (simp add: batchUnits_def algebra_simps)
    have "P ((b + 1) * Bz + 0) (b + 1) s'"
      using Pm b(1) by (simp add: P_def same ce wt sn algebra_simps nat_add_distrib)
    moreover have "marks (trace s') = scheduled name N Bz T (b + 1)
           @ map (\<lambda>k. Call (name k)) [(b + 1) * Bz .. (b + 1) * Bz + 0 - 1]"
      using b by (simp add: mk mks scheduled_step units)
    ultimately show "\<exists>s'. (case notify cb (CooldownProgress (min (b * Bz + Bz) N) N
                                  (success s) (failed s) (BATCH_COOLDOWN div 1000) (b + 2) T) s of
                        Threw e s'' \<Rightarrow> Threw e s''
                      | Normal s'' \<Rightarrow> Normal (emit (BatchCooldown BATCH_COOLDOWN) s'')) = Normal s'
                \<and> I (b + 1) 0 s'"
      using s' by (simp add: I_def)
  next
    fix s
    assume T: "0 < T" and inv: "I (T - 1) (size (T - 1)) s"
    have ll: "(T - 1) * Bz + size (T - 1) = N" by (rule size_last [OF T])
    from inv have Pm: "P N (T - 1) s"
      and mks: "marks (trace s) = scheduled name N Bz T (T - 1)
           @ map (\<lambda>k. Call (name k)) [(T - 1) * Bz .. N - 1]"
      by (simp_all add: I_def ll)
    have units: "batchUnits N Bz (T - 1) = [(T - 1) * Bz .. N - 1]"
      using T_cover by (simp add: batchUnits_def algebra_simps)
    have "scheduled name N Bz T (T - 1 + 1) = marks (trace s)"
      using T by (subst scheduled_step) (simp_all add: mks units)
    then show "F s"
      using Pm by (simp add: F_def schedule_scheduled)
  next
    assume "T \<le> 0"
    then have "N \<le> 0" using T_cover Bz
      by (meson mult_le_0_iff order_trans not_less order_less_imp_le)
    with N have "N = 0" by simp
    then show "F (initial :: message_outcome state)"
      using \<open>T \<le> 0\<close> by (simp add: F_def P_def initial_def schedule_def answered_def N_def)
  qed
  then show ?thesis
    by (auto simp: F_def P_def Bz_def N_def)
qed

lemma pauses_scheduled:
  "length (filter (\<lambda>m. m = Pause) (scheduled label N B T (int n))) = nat (min (int n) (T - 1))"
proof (induction n)
  case 0
  show ?case by (simp add: scheduled_0)
next
  case (Suc n)
  have "scheduled label N B T (int (Suc n)) = scheduled label N B T (int n + 1)"
    by (simp add: add.commute)
  also have "\<dots> = scheduled label N B T (int n) @ map (\<lambda>k. Call (label k)) (batchUnits N B (int n))
       @ (if int n < T - 1 then [Pause] else [])"
    by (rule scheduled_step) simp
  finally show ?case
    using Suc.IH by (simp add: filter_map comp_def) linarith
qed

lemma pauses_schedule:
  "length (filter (\<lambda>m. m = Pause) (schedule label N B T)) = nat (T - 1)"
proof (cases "0 \<le> T")
  case True
  then obtain n where "T = int n" using nonneg_int_cases by blast
  then show ?thesis
    using pauses_scheduled [of label N B T n] by (simp add: schedule_scheduled)
next
  case False
  then show ?thesis by (simp add: schedule_def)
qed

lemma units_partition_upto:
  assumes B: "0 < B"
  shows "int n \<le> \<lceil>real_of_int N / real_of_int B\<rceil>
     \<Longrightarrow> concat (map (batchUnits N B) [0 .. int n - 1]) = [0 .. min (int n * B) N - 1]"
proof (induction n)
  case 0
  show ?case by simp
next
  case (Suc n)
  have lt: "int n < \<lceil>real_of_int N / real_of_int B\<rceil>" using Suc.prems by simp
  then have nB: "int n * B < N" using totalBatches_iff [OF B] by simp
  have IH: "concat (map (batchUnits N B) [0 .. int n - 1]) = [0 .. int n * B - 1]"
    using Suc.IH lt nB by simp
  have "[0 .. int (Suc n) - 1] = [0 .. int n - 1] @ [int n]"
    using upto_rec2 [of 0 "int n"] by simp
  then have "concat (map (batchUnits N B) [0 .. int (Suc n) - 1])
      = [0 .. int n * B - 1] @ [int n * B .. min (int n * B + B) N - 1]"
    by (simp add: IH batchUnits_def)
  also have "\<dots> = [0 .. min (int n * B + B) N - 1]"
  proof -
    have "0 \<le> int n * B" using B by simp
    moreover have "int n * B \<le> min (int n * B + B) N - 1 + 1" using nB B by simp
    ultimately show ?thesis
      using upto_split1 [of 0 "int n * B" "min (int n * B + B) N - 1"] nB B
      by (cases "int n * B \<le> min (int n * B + B) N - 1") (simp_all add: min_def split: if_splits)
  qed
  finally show ?case by (simp add: algebra_simps)
qed

lemma totalBatches_nonneg:
  assumes "0 < B" "0 \<le> N"
  shows "0 \<le> \<lceil>real_of_int N / real_of_int B\<rceil>"
proof -
  define T where "T = \<lceil>real_of_int N / real_of_int B\<rceil>"
  have "- 1 < T \<longleftrightarrow> - 1 * B < N"
    unfolding T_def by (rule totalBatches_iff [OF assms(1)])
  moreover have "- 1 * B < N" using assms by simp
  ultimately have "- 1 < T" by blast
  then show ?thesis unfolding T_def by linarith
qed

lemma units_partition:
  assumes "0 < B" "0 \<le> N"
  shows "concat (map (batchUnits N B) [0 .. \<lceil>real_of_int N / real_of_int B\<rceil> - 1]) = [0 .. N - 1]"
proof -
  define T where "T = \<lceil>real_of_int N / real_of_int B\<rceil>"
  have "0 \<le> T" unfolding T_def by (rule totalBatches_nonneg [OF assms])
  then obtain n where n: "T = int n" using nonneg_int_cases by blast
  have "N \<le> int n * B"
    using totalBatches_cover [OF assms(1), of N] n unfolding T_def by simp
  moreover have "int n \<le> \<lceil>real_of_int N / real_of_int B\<rceil>"
    using n unfolding T_def by simp
  ultimately have "concat (map (batchUnits N B) [0 .. int n - 1]) = [0 .. N - 1]"
    using units_partition_upto [OF assms(1), of n N] by simp
  then show ?thesis
    using n unfolding T_def by simp
qed

lemma single_batch:
  assumes "1 \<le> N" "N \<le> B"
  shows "\<lceil>real_of_int N / real_of_int B\<rceil> = 1"
proof -
  define T where "T = \<lceil>real_of_int N / real_of_int B\<rceil>"
  have B: "0 < B" using assms by simp
  have "0 < T \<longleftrightarrow> 0 * B < N" "1 < T \<longleftrightarrow> 1 * B < N"
    unfolding T_def by (rule totalBatches_iff [OF B])+
  with assms have "0 < T" "\<not> 1 < T" by simp_all
  then show ?thesis unfolding T_def by linarith
qed

lemma createMultipleGroups_run:
  fixes opts :: options and count :: int and groupPrefix :: ustring
  defines "st \<equiv> settingsOf opts"
  defines "T \<equiv> \<lceil>real_of_int count / real_of_int (batchSize st)\<rceil>"
  defines "name \<equiv> \<lambda>k. formatGroupName st groupPrefix
                         (int (length (toString (startingNumber st + count - 1))))
                         (startingNumber st + k)"
  assumes "info cl" and "validateParticipants ps = None" and "quiet cb"
    and "0 < batchSize st" and "0 \<le> count"
  shows "\<exists>s. createMultipleGroups cl groupPrefix count ps opts cb rnd = Normal s
      \<and> length (log s) = nat count \<and> calls s = nat count
      \<and> (\<forall>k < nat count. log s ! k =
            groupOutcome (name (int k)) (startingNumber st + int k)
              (createGroup cl k (name (int k)) ps))
      \<and> failed s = length (filter (\<lambda>e. \<not> g_success e) (log s))
      \<and> (wellFormed cl \<longrightarrow> success s = length (filter g_success (log s)))
      \<and> marks (trace s) = schedule name count (batchSize st) T
      \<and> length (cooldownEvents (trace s)) = (if cb = None then 0 else nat (T - 1))
      \<and> length (waits (trace s)) = nat count - 1"
proof -
  have "createMultipleGroups cl groupPrefix count ps opts cb rnd =
      forLoop 0 T (groupBatch cl groupPrefix count ps st cb rnd
                     (int (length (toString (startingNumber st + count - 1)))) T) initial"
    using assms(4,5) by (simp add: createMultipleGroups_def Let_def st_def T_def)
  then show ?thesis
    using group_batches [OF assms(6,7,8), where cl = cl and groupPrefix = groupPrefix and ps = ps
        and rnd = rnd and maxDigits = "int (length (toString (startingNumber st + count - 1)))"]
    unfolding T_def name_def by simp
qed

lemma sendBulkMessages_run:
  fixes recipients :: "ustring list"
  defines "T \<equiv> \<lceil>real (length recipients) / real_of_int BATCH_SIZE\<rceil>"
  assumes "info cl" and "quiet cb" and "unitDraws rnd"
  shows "\<exists>s. sendBulkMessages cl message recipients delaySecs cb rnd = Normal s
      \<and> calls s = length recipients
      \<and> map fst (sent (trace s)) = recipients
      \<and> log s = answered cl (sent (trace s))
      \<and> failed s = length (filter (\<lambda>e. \<not> m_success e) (log s))
      \<and> (wellFormed cl \<longrightarrow> success s = length (filter m_success (log s)))
      \<and> marks (trace s) = schedule (\<lambda>k. recipients ! nat k) (int (length recipients)) BATCH_SIZE T
      \<and> length (cooldownEvents (trace s)) = (if cb = None then 0 else nat (T - 1))
      \<and> length (waits (trace s)) = length recipients - 1"
proof -
  have "sendBulkMessages cl message recipients delaySecs cb rnd =
      forLoop 0 T (messageBatch cl message recipients
                     (case delaySecs of None \<Rightarrow> 3 | Some d \<Rightarrow> d) cb rnd T) initial"
    using assms(2) by (simp add: sendBulkMessages_def Let_def T_def)
  then show ?thesis
    using message_batches [OF assms(3,4), where cl = cl and message = message
        and recipients = recipients and d = "case delaySecs of None \<Rightarrow> 3 | Some d \<Rightarrow> d"]
    unfolding T_def by simp
qed

text \<open>What holds of every effect of a run, whether it returns or throws.\<close>

lemma forLoop_always:
  assumes "J s"
    and "\<And>j t. i \<le> j \<Longrightarrow> j < n \<Longrightarrow> J t \<Longrightarrow> J (final (body j t))"
  shows "J (final (forLoop i n body s))"
proof -
  have "case forLoop i n body s of Normal s' \<Rightarrow> J s' | Threw e s' \<Rightarrow> J s'"
  proof (rule forLoop_rule [where I = "\<lambda>_. J" and Q = "\<lambda>_. J", OF assms(1)])
    fix j t
    assume "i \<le> j" "j < n" "J t"
    from assms(2) [OF this]
    show "case body j t of Normal t' \<Rightarrow> J t' | Threw e t' \<Rightarrow> J t'"
      by (simp add: final_def split: flow.splits)
  qed
  then show ?thesis
    by (simp add: final_def split: flow.splits)
qed

lemma notify_always:
  assumes "\<forall>e \<in> set (trace s). Q e" and "Q (Progress ev)"
  shows "\<forall>e \<in> set (trace (final (notify cb ev s))). Q e"
  using assms by (auto simp: notify_def final_def emit_def split: option.splits)

lemma groupBatches_always:
  fixes st :: settings
  assumes ev: "\<And>ev. Q (Progress ev)" and cd: "\<And>ms. Q (BatchCooldown ms)"
    and call: "\<And>name. Q (CreateGroup name ps)"
    and wait: "\<And>k r. Q (UnitDelay (waitTime st k r))"
    and init: "\<forall>e \<in> set (trace s0). Q e"
  shows "\<forall>e \<in> set (trace (final (forLoop 0 T
           (groupBatch cl groupPrefix count ps st cb rnd maxDigits T) s0))). Q e"
proof (rule forLoop_always [where J = "\<lambda>s. \<forall>e \<in> set (trace s). Q e", OF init])
  fix b and s :: "group_outcome state"
  assume inv: "\<forall>e \<in> set (trace s). Q e"
  let ?size = "min (b * batchSize st + batchSize st) count - b * batchSize st"
  let ?inner = "forLoop 0 ?size (groupUnit cl groupPrefix count ps st cb rnd maxDigits T b) s"
  have inner: "\<forall>e \<in> set (trace (final ?inner)). Q e"
  proof (rule forLoop_always [where J = "\<lambda>s. \<forall>e \<in> set (trace s). Q e", OF inv])
    fix i and t :: "group_outcome state"
    assume t: "\<forall>e \<in> set (trace t). Q e"
    show "\<forall>e \<in> set (trace (final (groupUnit cl groupPrefix count ps st cb rnd maxDigits T b i t))). Q e"
      unfolding groupUnit_def Let_def
      by (rule notify_always) (use t call wait ev in \<open>auto simp: tryCreateGroup_fields\<close>)
  qed
  show "\<forall>e \<in> set (trace (final (groupBatch cl groupPrefix count ps st cb rnd maxDigits T b s))). Q e"
  proof (cases ?inner)
    case (Threw e s')
    with inner show ?thesis by (simp add: groupBatch_def Let_def final_def)
  next
    case (Normal s')
    with inner have s': "\<forall>e \<in> set (trace s'). Q e" by (simp add: final_def)
    let ?ev = "CooldownProgress (min (b * batchSize st + batchSize st) count) count
                 (success s') (failed s') (batchCooldownSeconds st) (b + 2) T"
    have n: "\<forall>e \<in> set (trace (final (notify cb ?ev s'))). Q e"
      by (rule notify_always [OF s' ev])
    show ?thesis
    proof (cases "notify cb ?ev s'")
      case (Threw e s'')
      with n Normal s' show ?thesis
        by (simp add: groupBatch_def Let_def final_def)
    next
      case n': (Normal s'')
      with n Normal s' cd show ?thesis
        by (simp add: groupBatch_def Let_def final_def emit_def)
    qed
  qed
qed

lemma set_waits: "w \<in> set (waits tr) \<longleftrightarrow> UnitDelay w \<in> set tr"
  by (induction tr rule: waits.induct) auto

lemma trySendMessage_always:
  assumes call: "\<And>text. Q (SendMessage recipient text)"
    and wait: "\<And>j. Q (UnitDelay (getRandomizedDelay d (rnd j)))"
    and init: "\<forall>e \<in> set (trace s). Q e"
  shows "\<forall>e \<in> set (trace (trySendMessage cl message d rnd tp recipient s)). Q e"
  using assms
  by (auto simp: trySendMessage_def Let_def emit_def split: prod.splits option.splits response.splits)

lemma messageBatches_always:
  assumes ev: "\<And>ev. Q (Progress ev)" and cd: "\<And>ms. Q (BatchCooldown ms)"
    and call: "\<And>recipient text. Q (SendMessage recipient text)"
    and wait: "\<And>j. Q (UnitDelay (getRandomizedDelay d (rnd j)))"
    and init: "\<forall>e \<in> set (trace s0). Q e"
  shows "\<forall>e \<in> set (trace (final (forLoop 0 T
           (messageBatch cl message recipients d cb rnd T) s0))). Q e"
proof (rule forLoop_always [where J = "\<lambda>s. \<forall>e \<in> set (trace s). Q e", OF init])
  fix b and s :: "message_outcome state"
  assume inv: "\<forall>e \<in> set (trace s). Q e"
  let ?be = "min (b * BATCH_SIZE + BATCH_SIZE) (int (length recipients))"
  let ?size = "int (length (slice recipients (b * BATCH_SIZE) ?be))"
  let ?inner = "forLoop 0 ?size (messageUnit cl message recipients d cb rnd T b) s"
  have inner: "\<forall>e \<in> set (trace (final ?inner)). Q e"
  proof (rule forLoop_always [where J = "\<lambda>s. \<forall>e \<in> set (trace s). Q e", OF inv])
    fix i and t :: "message_outcome state"
    assume t: "\<forall>e \<in> set (trace t). Q e"
    show "\<forall>e \<in> set (trace (final (messageUnit cl message recipients d cb rnd T b i t))). Q e"
      unfolding messageUnit_def Let_def
      by (rule notify_always [OF trySendMessage_always [OF call wait t] ev])
  qed
  show "\<forall>e \<in> set (trace (final (messageBatch cl message recipients d cb rnd T b s))). Q e"
  proof (cases ?inner)
    case (Threw e s')
    with inner show ?thesis by (simp add: messageBatch_def Let_def final_def)
  next
    case (Normal s')
    with inner have s': "\<forall>e \<in> set (trace s'). Q e" by (simp add: final_def)
    let ?ev = "CooldownProgress ?be (int (length recipients))
                 (success s') (failed s') (BATCH_COOLDOWN div 1000) (b + 2) T"
    have n: "\<forall>e \<in> set (trace (final (notify cb ?ev s'))). Q e"
      by (rule notify_always [OF s' ev])
    show ?thesis
    proof (cases "notify cb ?ev s'")
      case (Threw e s'')
      with n Normal s' show ?thesis
        by (simp add: messageBatch_def Let_def final_def)
    next
      case n': (Normal s'')
      with n Normal s' cd show ?thesis
        by (simp add: messageBatch_def Let_def final_def emit_def)
    qed
  qed
qed

lemma createMultipleGroups_always:
  assumes ev: "\<And>ev. Q (Progress ev)" and cd: "\<And>ms. Q (BatchCooldown ms)"
    and call: "\<And>name. validateParticipants ps = None \<Longrightarrow> Q (CreateGroup name ps)"
    and wait: "\<And>k r. Q (UnitDelay (waitTime (settingsOf opts) k r))"
  shows "\<forall>e \<in> set (trace (final (createMultipleGroups cl groupPrefix count ps opts cb rnd))). Q e"
proof (cases "info cl \<and> validateParticipants ps = None")
  case False
  then show ?thesis
    by (auto simp: createMultipleGroups_def Let_def final_def initial_def split: option.splits)
next
  case True
  have "\<forall>e \<in> set (trace (initial :: group_outcome state)). Q e"
    by (simp add: initial_def)
  from groupBatches_always [where Q = Q, OF ev cd call [OF conjunct2 [OF True]] wait this]
  show ?thesis
    using True by (simp add: createMultipleGroups_def Let_def)
qed

lemma sendBulkMessages_always:
  assumes ev: "\<And>ev. Q (Progress ev)" and cd: "\<And>ms. Q (BatchCooldown ms)"
    and call: "\<And>recipient text. Q (SendMessage recipient text)"
    and wait: "\<And>j. Q (UnitDelay (getRandomizedDelay
                         (case delaySecs of None \<Rightarrow> 3 | Some d \<Rightarrow> d) (rnd j)))"
  shows "\<forall>e \<in> set (trace (final (sendBulkMessages cl message recipients delaySecs cb rnd))). Q e"
proof (cases "info cl")
  case False
  then show ?thesis
    by (simp add: sendBulkMessages_def Let_def final_def initial_def)
next
  case True
  have "\<forall>e \<in> set (trace (initial :: message_outcome state)). Q e"
    by (simp add: initial_def)
  from messageBatches_always [where Q = Q, OF ev cd call wait this]
  show ?thesis
    using True by (simp add: sendBulkMessages_def Let_def)
qed

lemma forLoop_none: "n \<le> i \<Longrightarrow> forLoop i n body s = Normal s"
  by (simp add: forLoop.simps)

lemma totalBatches_none:
  assumes "count = 0 \<or> (B < 0 \<and> 0 \<le> count)"
  shows "\<lceil>real_of_int count / real_of_int B\<rceil> \<le> 0"
proof -
  have "real_of_int count / real_of_int B \<le> 0"
    using assms by (auto simp: divide_nonneg_neg divide_le_0_iff)
  then show ?thesis by (simp add: ceiling_le_iff)
qed

lemma accounting_with_ids:
  assumes "wellFormed cl" and "quiet cb"
  shows "info cl \<Longrightarrow> validateParticipants ps = None \<Longrightarrow> 0 < batchSize (settingsOf opts)
           \<Longrightarrow> 0 \<le> count
           \<Longrightarrow> \<exists>s. createMultipleGroups cl groupPrefix count ps opts cb rnd = Normal s
                 \<and> success s + failed s = nat count \<and> length (log s) = nat count"
    and "info cl \<Longrightarrow> unitDraws rnd
           \<Longrightarrow> \<exists>s. sendBulkMessages cl message recipients delaySecs cb rnd = Normal s
                 \<and> success s + failed s = length recipients
                 \<and> length (log s) = length recipients"
proof -
  assume a: "info cl" "validateParticipants ps = None" "0 < batchSize (settingsOf opts)" "0 \<le> count"
  from createMultipleGroups_run [OF a(1,2) assms(2) a(3,4), of groupPrefix rnd]
  obtain s where s: "createMultipleGroups cl groupPrefix count ps opts cb rnd = Normal s"
    "length (log s) = nat count"
    "failed s = length (filter (\<lambda>e. \<not> g_success e) (log s))"
    "wellFormed cl \<longrightarrow> success s = length (filter g_success (log s))"
    by blast
  have "success s + failed s = length (log s)"
    using s(3,4) assms(1) sum_length_filter_compl [of g_success "log s"] by simp
  with s(1,2) show "\<exists>s. createMultipleGroups cl groupPrefix count ps opts cb rnd = Normal s
                 \<and> success s + failed s = nat count \<and> length (log s) = nat count"
    by simp
next
  assume a: "info cl" "unitDraws rnd"
  from sendBulkMessages_run [OF a(1) assms(2) a(2), of message recipients delaySecs]
  obtain s where s: "sendBulkMessages cl message recipients delaySecs cb rnd = Normal s"
    "map fst (sent (trace s)) = recipients"
    "log s = answered cl (sent (trace s))"
    "failed s = length (filter (\<lambda>e. \<not> m_success e) (log s))"
    "wellFormed cl \<longrightarrow> success s = length (filter m_success (log s))"
    by blast
  have "length (log s) = length (map fst (sent (trace s)))"
    by (simp add: s(3) length_answered)
  then have len: "length (log s) = length recipients" by (simp add: s(2))
  have "success s + failed s = length (log s)"
    using s(4,5) assms(1) sum_length_filter_compl [of m_success "log s"] by simp
  with s(1) len show "\<exists>s. sendBulkMessages cl message recipients delaySecs cb rnd = Normal s
                 \<and> success s + failed s = length recipients
                 \<and> length (log s) = length recipients"
    by simp
qed

lemma trySendMessage_wait:
  assumes "0 < tp"
  shows "\<exists>rest. trace (trySendMessage cl message d rnd tp recipient s) =
           trace s @ UnitDelay (d * 1000 + \<lfloor>rnd (draws s) * 5000 + 1000\<rfloor>) # rest"
    and "draws s < draws (trySendMessage cl message d rnd tp recipient s)"
proof -
  obtain out k where v: "addMessageVariation rnd (draws s + 1) message = (out, k)"
    by (cases "addMessageVariation rnd (draws s + 1) message") auto
  have k: "draws s + 1 < k"
    using v by (auto simp: addMessageVariation_def Let_def split: option.splits variation.splits)
  show "\<exists>rest. trace (trySendMessage cl message d rnd tp recipient s) =
           trace s @ UnitDelay (d * 1000 + \<lfloor>rnd (draws s) * 5000 + 1000\<rfloor>) # rest"
    using assms v
    by (auto simp: trySendMessage_def Let_def emit_def getRandomizedDelay_eq
          split: option.splits response.splits)
  show "draws s < draws (trySendMessage cl message d rnd tp recipient s)"
    using assms v k
    by (auto simp: trySendMessage_def Let_def emit_def split: option.splits response.splits)
qed

lemma nth_answered:
  "k < length cs \<Longrightarrow>
     answered cl cs ! k = messageOutcome (fst (cs ! k)) (sendMessage cl k (fst (cs ! k)) (snd (cs ! k)))"
  by (simp add: answered_def nth_enumerate_eq split: prod.splits)

section \<open>The claims\<close>

subsection \<open>Accounting and failures\<close>

text \<open>
  C1 asks that every run that passes the checks before the loop, with a callback that
  does not throw, ends with \<open>success + failed\<close> equal to the number of units. Both
  orchestrators increment \<open>success\<close> before they read the id of the handle, inside the
  \<^verbatim>\<open>try\<close>. When the collaborator resolves to a value without that id (a client
  library may resolve \<^verbatim>\<open>createGroup\<close> to a string and \<^verbatim>\<open>sendMessage\<close> to
  \<^verbatim>\<open>undefined\<close>), the read throws, the \<^verbatim>\<open>catch\<close> increments \<open>failed\<close> and
  records the unit as failed: one unit, one log entry, counted twice.
\<close>

theorem C1_handle_without_id_counted_twice:
  "createMultipleGroups
     \<lparr>info = True, createGroup = (\<lambda>k n ps. Resolves None),
      sendMessage = (\<lambda>k r t. Resolves None)\<rparr>
     [0x47] 1 [ascii ''628123@c.us''] noOptions None (\<lambda>k. 0)
   = Normal \<lparr>success = 1, failed = 1,
             log = [groupFailed [0x47, 0x20, 0x31] 1 typeErrorMessage],
             trace = [CreateGroup [0x47, 0x20, 0x31] [ascii ''628123@c.us'']],
             calls = 1, draws = 0\<rparr>
   \<and> sendBulkMessages
     \<lparr>info = True, createGroup = (\<lambda>k n ps. Resolves None),
      sendMessage = (\<lambda>k r t. Resolves None)\<rparr>
     [0x68, 0x69] [ascii ''628123@c.us''] (Some 3) None (\<lambda>k. 0)
   = Normal \<lparr>success = 1, failed = 1,
             log = [messageFailed (ascii ''628123@c.us'') typeErrorMessage],
             trace = [SendMessage (ascii ''628123@c.us'') [0x68, 0x69]],
             calls = 1, draws = 1\<rparr>"
  by code_simp

text \<open>
  C3. Whatever the collaborator answers, a run whose callback does not throw returns its
  results: it never throws. It makes one call and records one entry for every unit, in
  order; \<open>failed\<close> is the number of entries with \<open>success = false\<close>; and the entry of
  a unit whose call was rejected with a message is the failure entry of that unit
  carrying that message.
\<close>

theorem C3_unit_failure_recorded_run_continues:
  fixes opts :: options and count :: int and groupPrefix :: ustring
    and recipients :: "ustring list"
  defines "st \<equiv> settingsOf opts"
  defines "name \<equiv> \<lambda>k. formatGroupName st groupPrefix
        (int (length (toString (startingNumber st + count - 1)))) (startingNumber st + k)"
  shows "(info cl \<and> validateParticipants ps = None \<and> quiet cb \<and> 0 < batchSize st \<and> 0 \<le> count \<longrightarrow>
      (\<exists>s. createMultipleGroups cl groupPrefix count ps opts cb rnd = Normal s
        \<and> length (log s) = nat count \<and> calls s = nat count
        \<and> failed s = length (filter (\<lambda>e. \<not> g_success e) (log s))
        \<and> (\<forall>k < nat count. \<forall>msg.
              createGroup cl k (name (int k)) ps = Rejects msg \<longrightarrow>
              log s ! k = \<lparr>g_name = name (int k), g_number = startingNumber st + int k,
                           g_id = None, g_success = False, g_error = Some msg\<rparr>)))
   \<and> (info cl \<and> quiet cb \<and> unitDraws rnd \<longrightarrow>
      (\<exists>s. sendBulkMessages cl message recipients delaySecs cb rnd = Normal s
        \<and> length (log s) = length recipients \<and> calls s = length recipients
        \<and> failed s = length (filter (\<lambda>e. \<not> m_success e) (log s))
        \<and> (\<forall>k < length recipients. \<exists>sentText.
              sent (trace s) ! k = (recipients ! k, sentText)
              \<and> (\<forall>msg. sendMessage cl k (recipients ! k) sentText = Rejects msg \<longrightarrow>
                    log s ! k = \<lparr>m_recipient = recipients ! k, m_success = False,
                                 m_messageId = None, m_error = Some msg\<rparr>))))"
proof (rule conjI; rule impI)
  assume "info cl \<and> validateParticipants ps = None \<and> quiet cb \<and> 0 < batchSize st \<and> 0 \<le> count"
  then have a: "info cl" "validateParticipants ps = None" "quiet cb"
    "0 < batchSize (settingsOf opts)" "0 \<le> count"
    by (simp_all add: st_def)
  from createMultipleGroups_run [OF a, of groupPrefix rnd]
  obtain s where s: "createMultipleGroups cl groupPrefix count ps opts cb rnd = Normal s"
    "length (log s) = nat count" "calls s = nat count"
    "failed s = length (filter (\<lambda>e. \<not> g_success e) (log s))"
    and entries: "\<forall>k < nat count. log s ! k =
            groupOutcome (name (int k)) (startingNumber st + int k)
              (createGroup cl k (name (int k)) ps)"
    unfolding st_def name_def by blast
  have "log s ! k = \<lparr>g_name = name (int k), g_number = startingNumber st + int k,
                           g_id = None, g_success = False, g_error = Some msg\<rparr>"
    if "k < nat count" "createGroup cl k (name (int k)) ps = Rejects msg" for k msg
    using entries that by (simp add: groupOutcome_def groupFailed_def)
  with s show "\<exists>s. createMultipleGroups cl groupPrefix count ps opts cb rnd = Normal s
        \<and> length (log s) = nat count \<and> calls s = nat count
        \<and> failed s = length (filter (\<lambda>e. \<not> g_success e) (log s))
        \<and> (\<forall>k < nat count. \<forall>msg.
              createGroup cl k (name (int k)) ps = Rejects msg \<longrightarrow>
              log s ! k = \<lparr>g_name = name (int k), g_number = startingNumber st + int k,
                           g_id = None, g_success = False, g_error = Some msg\<rparr>)"
    by blast
next
  assume "info cl \<and> quiet cb \<and> unitDraws rnd"
  then have a: "info cl" "quiet cb" "unitDraws rnd" by simp_all
  from sendBulkMessages_run [OF a, of message recipients delaySecs]
  obtain s where s: "sendBulkMessages cl message recipients delaySecs cb rnd = Normal s"
    "calls s = length recipients"
    "failed s = length (filter (\<lambda>e. \<not> m_success e) (log s))"
    and fs: "map fst (sent (trace s)) = recipients"
    and lg: "log s = answered cl (sent (trace s))"
    by blast
  have len: "length (sent (trace s)) = length recipients"
    using fs by (metis length_map)
  have ll: "length (log s) = length recipients"
    by (simp add: lg length_answered len)
  have each: "\<exists>sentText. sent (trace s) ! k = (recipients ! k, sentText)
              \<and> (\<forall>msg. sendMessage cl k (recipients ! k) sentText = Rejects msg \<longrightarrow>
                    log s ! k = \<lparr>m_recipient = recipients ! k, m_success = False,
                                 m_messageId = None, m_error = Some msg\<rparr>)"
    if k: "k < length recipients" for k
  proof -
    have f: "fst (sent (trace s) ! k) = recipients ! k"
      using k len fs by (metis nth_map)
    have "log s ! k = messageOutcome (recipients ! k)
            (sendMessage cl k (recipients ! k) (snd (sent (trace s) ! k)))"
      using k len by (simp add: lg nth_answered f)
    then show ?thesis
      using f by (intro exI [of _ "snd (sent (trace s) ! k)"])
        (auto simp: messageOutcome_def messageFailed_def prod_eq_iff)
  qed
  with s ll show "\<exists>s. sendBulkMessages cl message recipients delaySecs cb rnd = Normal s
        \<and> length (log s) = length recipients \<and> calls s = length recipients
        \<and> failed s = length (filter (\<lambda>e. \<not> m_success e) (log s))
        \<and> (\<forall>k < length recipients. \<exists>sentText.
              sent (trace s) ! k = (recipients ! k, sentText)
              \<and> (\<forall>msg. sendMessage cl k (recipients ! k) sentText = Rejects msg \<longrightarrow>
                    log s ! k = \<lparr>m_recipient = recipients ! k, m_success = False,
                                 m_messageId = None, m_error = Some msg\<rparr>))"
    by blast
qed

theorem C3_unit_failure_recorded_run_continues_witness:
  "validateParticipants [ascii ''628123@c.us''] = None \<and> quiet None
   \<and> 0 < batchSize (settingsOf noOptions) \<and> (0 :: int) \<le> 3 \<and> unitDraws (\<lambda>k. 0)
   \<and> (\<exists>s. createMultipleGroups
         \<lparr>info = True,
          createGroup = (\<lambda>k n ps. if k = 1 then Rejects [0x78] else Resolves (Some [0x67])),
          sendMessage = (\<lambda>k r t. if k = 1 then Rejects [0x78] else Resolves (Some [0x6D]))\<rparr>
         [0x47] 3 [ascii ''628123@c.us''] noOptions None (\<lambda>k. 0) = Normal s
       \<and> length (log s) = 3 \<and> calls s = 3
       \<and> log s ! 1 = \<lparr>g_name = [0x47, 0x20, 0x32], g_number = 2, g_id = None,
                       g_success = False, g_error = Some [0x78]\<rparr>)
   \<and> (\<exists>s. sendBulkMessages
         \<lparr>info = True,
          createGroup = (\<lambda>k n ps. if k = 1 then Rejects [0x78] else Resolves (Some [0x67])),
          sendMessage = (\<lambda>k r t. if k = 1 then Rejects [0x78] else Resolves (Some [0x6D]))\<rparr>
         [0x68, 0x69] [ascii ''1'', ascii ''2'', ascii ''3''] (Some 3) None (\<lambda>k. 0) = Normal s
       \<and> length (log s) = 3 \<and> calls s = 3
       \<and> log s ! 1 = \<lparr>m_recipient = ascii ''2'', m_success = False, m_messageId = None,
                       m_error = Some [0x78]\<rparr>)"
proof -
  let ?cl = "\<lparr>info = True,
          createGroup = (\<lambda>k n ps. if k = 1 then Rejects [0x78] else Resolves (Some [0x67])),
          sendMessage = (\<lambda>k r t. if k = 1 then Rejects [0x78] else Resolves (Some [0x6D]))\<rparr>"
  have v: "validateParticipants [ascii ''628123@c.us''] = None"
    by (simp add: validateParticipants_def matchesPhone_def ascii_def isDigit_def)
  have q: "quiet None" by (simp add: quiet_def)
  have b: "batchSize (settingsOf noOptions) = 10" "startingNumber (settingsOf noOptions) = 1"
    "padNumbers (settingsOf noOptions) = False"
    by (simp_all add: settingsOf_def orElse_def noOptions_def)
  have u: "unitDraws (\<lambda>k. 0)" by (simp add: unitDraws_def unitDraw_def)
  have n: "formatGroupName (settingsOf noOptions) [0x47] w 2 = [0x47, 0x20, 0x32]" for w
    by (simp add: formatGroupName_def b toString_def digits.simps digitChar_def)
  note inst = C3_unit_failure_recorded_run_continues
        [where cl = ?cl and ps = "[ascii ''628123@c.us'']" and cb = None
           and opts = noOptions and count = 3 and groupPrefix = "[0x47]" and rnd = "\<lambda>k. 0"
           and recipients = "[ascii ''1'', ascii ''2'', ascii ''3'']" and message = "[0x68, 0x69]"
           and delaySecs = "Some 3"]
  from inst v q b u
  obtain s where s: "createMultipleGroups ?cl [0x47] 3 [ascii ''628123@c.us''] noOptions None
              (\<lambda>k. 0) = Normal s" "length (log s) = 3" "calls s = 3"
    and e: "\<forall>k < 3. \<forall>msg. createGroup ?cl k
              (formatGroupName (settingsOf noOptions) [0x47]
                 (int (length (toString (startingNumber (settingsOf noOptions) + 3 - 1))))
                 (startingNumber (settingsOf noOptions) + int k)) [ascii ''628123@c.us'']
              = Rejects msg \<longrightarrow>
              log s ! k = \<lparr>g_name = formatGroupName (settingsOf noOptions) [0x47]
                 (int (length (toString (startingNumber (settingsOf noOptions) + 3 - 1))))
                 (startingNumber (settingsOf noOptions) + int k),
                 g_number = startingNumber (settingsOf noOptions) + int k,
                 g_id = None, g_success = False, g_error = Some msg\<rparr>"
    by auto
  from e [rule_format, of 1 "[0x78]"]
  have g1: "log s ! 1 = \<lparr>g_name = [0x47, 0x20, 0x32], g_number = 2, g_id = None,
                       g_success = False, g_error = Some [0x78]\<rparr>"
    by (simp add: b n)
  from inst q u
  obtain t where t: "sendBulkMessages ?cl [0x68, 0x69] [ascii ''1'', ascii ''2'', ascii ''3''] (Some 3) None
              (\<lambda>k. 0) = Normal t" "length (log t) = 3" "calls t = 3"
    and e': "\<forall>k < 3. \<exists>sentText. sent (trace t) ! k = ([ascii ''1'', ascii ''2'', ascii ''3''] ! k, sentText)
              \<and> (\<forall>msg. sendMessage ?cl k ([ascii ''1'', ascii ''2'', ascii ''3''] ! k) sentText = Rejects msg \<longrightarrow>
                    log t ! k = \<lparr>m_recipient = [ascii ''1'', ascii ''2'', ascii ''3''] ! k, m_success = False,
                                 m_messageId = None, m_error = Some msg\<rparr>)"
    by auto
  from e' [rule_format, of 1]
  have m1: "log t ! 1 = \<lparr>m_recipient = ascii ''2'', m_success = False, m_messageId = None,
                       m_error = Some [0x78]\<rparr>"
    by auto
  show ?thesis
    using v q b(1) u s g1 t m1 by auto
qed

subsection \<open>Batches\<close>

text \<open>
  C2. A run over \<open>N \<ge> 1\<close> units with batch size \<open>B > 0\<close> (the configured size for
  groups, 26 for messages), whose callback does not throw, makes its collaborator calls
  in the order of the units, cut into \<open>\<lceil>N / B\<rceil>\<close> contiguous batches that together are
  the units \<open>0..N - 1\<close>, with one cooldown wait after every batch but the last:
  \<open>\<lceil>N / B\<rceil> - 1\<close> waits, and as many cooldown notifications when a callback was
  given. With \<open>B \<ge> N\<close> there is one batch and no cooldown. (On the message path the
  draws are those of \<^verbatim>\<open>Math.random()\<close>, in \<open>[0, 1)\<close>.)
\<close>

theorem C2_batches_and_cooldowns:
  fixes opts :: options and count :: int and groupPrefix :: ustring
    and recipients :: "ustring list"
  defines "B \<equiv> batchSize (settingsOf opts)"
  defines "T \<equiv> \<lceil>real_of_int count / real_of_int B\<rceil>"
  defines "name \<equiv> \<lambda>k. formatGroupName (settingsOf opts) groupPrefix
        (int (length (toString (startingNumber (settingsOf opts) + count - 1))))
        (startingNumber (settingsOf opts) + k)"
  defines "N' \<equiv> int (length recipients)"
  defines "T' \<equiv> \<lceil>real_of_int N' / real_of_int BATCH_SIZE\<rceil>"
  shows "(info cl \<and> validateParticipants ps = None \<and> quiet cb \<and> 0 < B \<and> 1 \<le> count \<longrightarrow>
      (\<exists>s. createMultipleGroups cl groupPrefix count ps opts cb rnd = Normal s
        \<and> marks (trace s) = schedule name count B T
        \<and> concat (map (batchUnits count B) [0 .. T - 1]) = [0 .. count - 1]
        \<and> length (filter (\<lambda>m. m = Pause) (marks (trace s))) = nat (T - 1)
        \<and> length (cooldownEvents (trace s)) = (if cb = None then 0 else nat (T - 1))
        \<and> (count \<le> B \<longrightarrow> T = 1 \<and> Pause \<notin> set (marks (trace s))
              \<and> cooldownEvents (trace s) = [])))
   \<and> (info cl \<and> quiet cb \<and> unitDraws rnd \<and> recipients \<noteq> [] \<longrightarrow>
      (\<exists>s. sendBulkMessages cl message recipients delaySecs cb rnd = Normal s
        \<and> marks (trace s) = schedule (\<lambda>k. recipients ! nat k) N' BATCH_SIZE T'
        \<and> concat (map (batchUnits N' BATCH_SIZE) [0 .. T' - 1]) = [0 .. N' - 1]
        \<and> length (filter (\<lambda>m. m = Pause) (marks (trace s))) = nat (T' - 1)
        \<and> length (cooldownEvents (trace s)) = (if cb = None then 0 else nat (T' - 1))
        \<and> (N' \<le> BATCH_SIZE \<longrightarrow> T' = 1 \<and> Pause \<notin> set (marks (trace s))
              \<and> cooldownEvents (trace s) = [])))"
proof (rule conjI; rule impI)
  assume "info cl \<and> validateParticipants ps = None \<and> quiet cb \<and> 0 < B \<and> 1 \<le> count"
  then have a: "info cl" "validateParticipants ps = None" "quiet cb"
    "0 < batchSize (settingsOf opts)" "0 \<le> count" and c1: "1 \<le> count" and B: "0 < B"
    by (simp_all add: B_def)
  from createMultipleGroups_run [OF a, of groupPrefix rnd]
  obtain s where s: "createMultipleGroups cl groupPrefix count ps opts cb rnd = Normal s"
    and mk: "marks (trace s) = schedule name count B T"
    and ce: "length (cooldownEvents (trace s)) = (if cb = None then 0 else nat (T - 1))"
    unfolding B_def T_def name_def by blast
  have part: "concat (map (batchUnits count B) [0 .. T - 1]) = [0 .. count - 1]"
    unfolding T_def using B a(5) by (rule units_partition)
  have pz: "length (filter (\<lambda>m. m = Pause) (marks (trace s))) = nat (T - 1)"
    by (simp add: mk pauses_schedule)
  have one: "T = 1 \<and> Pause \<notin> set (marks (trace s)) \<and> cooldownEvents (trace s) = []"
    if "count \<le> B"
  proof -
    have T1: "T = 1" unfolding T_def using c1 that by (rule single_batch)
    with pz have "filter (\<lambda>m. m = Pause) (marks (trace s)) = []" by simp
    then have "Pause \<notin> set (marks (trace s))" by (auto simp: filter_empty_conv)
    moreover from ce T1 have "cooldownEvents (trace s) = []" by (simp split: if_splits)
    ultimately show ?thesis using T1 by simp
  qed
  show "\<exists>s. createMultipleGroups cl groupPrefix count ps opts cb rnd = Normal s
        \<and> marks (trace s) = schedule name count B T
        \<and> concat (map (batchUnits count B) [0 .. T - 1]) = [0 .. count - 1]
        \<and> length (filter (\<lambda>m. m = Pause) (marks (trace s))) = nat (T - 1)
        \<and> length (cooldownEvents (trace s)) = (if cb = None then 0 else nat (T - 1))
        \<and> (count \<le> B \<longrightarrow> T = 1 \<and> Pause \<notin> set (marks (trace s))
              \<and> cooldownEvents (trace s) = [])"
    using s mk part pz ce one by blast
next
  assume "info cl \<and> quiet cb \<and> unitDraws rnd \<and> recipients \<noteq> []"
  then have a: "info cl" "quiet cb" "unitDraws rnd" and ne: "1 \<le> N'"
    by (simp_all add: N'_def Suc_le_eq)
  have B: "0 < BATCH_SIZE" by (simp add: BATCH_SIZE_def)
  from sendBulkMessages_run [OF a, of message recipients delaySecs]
  obtain s where s: "sendBulkMessages cl message recipients delaySecs cb rnd = Normal s"
    and mk: "marks (trace s) = schedule (\<lambda>k. recipients ! nat k) N' BATCH_SIZE T'"
    and ce: "length (cooldownEvents (trace s)) = (if cb = None then 0 else nat (T' - 1))"
    unfolding T'_def N'_def by auto
  have part: "concat (map (batchUnits N' BATCH_SIZE) [0 .. T' - 1]) = [0 .. N' - 1]"
    unfolding T'_def using B by (rule units_partition) (simp add: N'_def)
  have pz: "length (filter (\<lambda>m. m = Pause) (marks (trace s))) = nat (T' - 1)"
    by (simp add: mk pauses_schedule)
  have one: "T' = 1 \<and> Pause \<notin> set (marks (trace s)) \<and> cooldownEvents (trace s) = []"
    if "N' \<le> BATCH_SIZE"
  proof -
    have T1: "T' = 1" unfolding T'_def using ne that by (rule single_batch)
    with pz have "filter (\<lambda>m. m = Pause) (marks (trace s)) = []" by simp
    then have "Pause \<notin> set (marks (trace s))" by (auto simp: filter_empty_conv)
    moreover from ce T1 have "cooldownEvents (trace s) = []" by (simp split: if_splits)
    ultimately show ?thesis using T1 by simp
  qed
  show "\<exists>s. sendBulkMessages cl message recipients delaySecs cb rnd = Normal s
        \<and> marks (trace s) = schedule (\<lambda>k. recipients ! nat k) N' BATCH_SIZE T'
        \<and> concat (map (batchUnits N' BATCH_SIZE) [0 .. T' - 1]) = [0 .. N' - 1]
        \<and> length (filter (\<lambda>m. m = Pause) (marks (trace s))) = nat (T' - 1)
        \<and> length (cooldownEvents (trace s)) = (if cb = None then 0 else nat (T' - 1))
        \<and> (N' \<le> BATCH_SIZE \<longrightarrow> T' = 1 \<and> Pause \<notin> set (marks (trace s))
              \<and> cooldownEvents (trace s) = [])"
    using s mk part pz ce one by blast
qed

theorem C2_batches_and_cooldowns_witness:
  "validateParticipants [ascii ''628123@c.us''] = None \<and> quiet (Some (\<lambda>ev. None))
   \<and> 0 < batchSize (settingsOf noOptions) \<and> (1 :: int) \<le> 25 \<and> unitDraws (\<lambda>k. 0)
   \<and> replicate 30 (ascii ''628123@c.us'') \<noteq> []
   \<and> (\<exists>s. createMultipleGroups
         \<lparr>info = True, createGroup = (\<lambda>k n ps. Resolves (Some [0x67])),
          sendMessage = (\<lambda>k r t. Resolves (Some [0x6D]))\<rparr>
         [0x47] 25 [ascii ''628123@c.us''] noOptions (Some (\<lambda>ev. None)) (\<lambda>k. 0) = Normal s
       \<and> length (filter (\<lambda>m. m = Pause) (marks (trace s))) = 2
       \<and> length (cooldownEvents (trace s)) = 2)
   \<and> (\<exists>s. sendBulkMessages
         \<lparr>info = True, createGroup = (\<lambda>k n ps. Resolves (Some [0x67])),
          sendMessage = (\<lambda>k r t. Resolves (Some [0x6D]))\<rparr>
         [0x68, 0x69] (replicate 30 (ascii ''628123@c.us'')) (Some 3) (Some (\<lambda>ev. None)) (\<lambda>k. 0)
         = Normal s
       \<and> length (filter (\<lambda>m. m = Pause) (marks (trace s))) = 1
       \<and> length (cooldownEvents (trace s)) = 1)"
proof -
  let ?cl = "\<lparr>info = True, createGroup = (\<lambda>k n ps. Resolves (Some [0x67])),
          sendMessage = (\<lambda>k r t. Resolves (Some [0x6D]))\<rparr>"
  have v: "validateParticipants [ascii ''628123@c.us''] = None"
    by (simp add: validateParticipants_def matchesPhone_def ascii_def isDigit_def)
  have q: "quiet (Some (\<lambda>ev. None))" by (simp add: quiet_def)
  have b: "batchSize (settingsOf noOptions) = 10"
    by (simp add: settingsOf_def orElse_def noOptions_def)
  have u: "unitDraws (\<lambda>k. 0)" by (simp add: unitDraws_def unitDraw_def)
  note inst = C2_batches_and_cooldowns
        [where cl = ?cl and ps = "[ascii ''628123@c.us'']" and cb = "Some (\<lambda>ev. None)"
           and opts = noOptions and count = 25 and groupPrefix = "[0x47]" and rnd = "\<lambda>k. 0"
           and recipients = "replicate 30 (ascii ''628123@c.us'')" and message = "[0x68, 0x69]"
           and delaySecs = "Some 3"]
  from inst v q b u
  have g: "\<exists>s. createMultipleGroups ?cl [0x47] 25 [ascii ''628123@c.us''] noOptions
              (Some (\<lambda>ev. None)) (\<lambda>k. 0) = Normal s
       \<and> length (filter (\<lambda>m. m = Pause) (marks (trace s))) = 2
       \<and> length (cooldownEvents (trace s)) = 2"
    by simp blast
  from inst v q b u
  have m: "\<exists>s. sendBulkMessages ?cl [0x68, 0x69] (replicate 30 (ascii ''628123@c.us'')) (Some 3)
              (Some (\<lambda>ev. None)) (\<lambda>k. 0) = Normal s
       \<and> length (filter (\<lambda>m. m = Pause) (marks (trace s))) = 1
       \<and> length (cooldownEvents (trace s)) = 1"
    by (simp add: BATCH_SIZE_def) blast
  show ?thesis
    using v q b u g m by simp
qed

subsection \<open>Pacing\<close>

text \<open>
  C4, as the specification states it, adds the jitter on the group-creation path too. It
  does not: with a fixed delay of 5 seconds the wait before the second group is 5000 ms,
  whatever the draw.
\<close>

theorem C4_group_fixed_delay_without_jitter_counterexample:
  "createMultipleGroups
     \<lparr>info = True, createGroup = (\<lambda>k n ps. Resolves (Some [0x67])),
      sendMessage = (\<lambda>k r t. Resolves None)\<rparr>
     [0x47] 2 [ascii ''628123@c.us''] (noOptions\<lparr>o_delaySeconds := Some 5\<rparr>) None (\<lambda>k. 1 / 2)
   = Normal \<lparr>success = 2, failed = 0,
             log = [groupCreated [0x47, 0x20, 0x31] 1 [0x67],
                    groupCreated [0x47, 0x20, 0x32] 2 [0x67]],
             trace = [CreateGroup [0x47, 0x20, 0x31] [ascii ''628123@c.us''],
                      UnitDelay 5000,
                      CreateGroup [0x47, 0x20, 0x32] [ascii ''628123@c.us'']],
             calls = 2, draws = 0\<rparr>"
  by code_simp

text \<open>
  C4, amended. On the message path every wait of a run is \<open>D * 1000\<close> plus an offset
  from 1000 to 5999 ms; the wait before a unit that is not the first is
  \<open>D * 1000 + \<lfloor>r * 5000 + 1000\<rfloor>\<close> for the next unread draw \<open>r\<close>, which is then
  consumed, and a run that returns has waited once before each unit but the first. On the
  group path with a fixed delay \<open>D > 0\<close> every wait is exactly \<open>D * 1000\<close> ms.
\<close>

theorem C4_fixed_delay_jitter_on_message_path_only:
  fixes delaySecs :: "int option"
  defines "D \<equiv> (case delaySecs of None \<Rightarrow> 3 | Some d \<Rightarrow> d)"
  shows "(unitDraws rnd \<longrightarrow>
        (\<forall>w \<in> set (waits (trace (final (sendBulkMessages cl message recipients delaySecs cb rnd)))).
            D * 1000 + 1000 \<le> w \<and> w \<le> D * 1000 + 5999))
   \<and> (0 < totalProcessed \<longrightarrow>
        (\<exists>rest. trace (trySendMessage cl message D rnd totalProcessed recipient s) =
           trace s @ UnitDelay (D * 1000 + \<lfloor>rnd (draws s) * 5000 + 1000\<rfloor>) # rest)
        \<and> draws s < draws (trySendMessage cl message D rnd totalProcessed recipient s))
   \<and> (info cl \<and> quiet cb \<and> unitDraws rnd \<longrightarrow>
        (\<exists>s'. sendBulkMessages cl message recipients delaySecs cb rnd = Normal s'
           \<and> length (waits (trace s')) = length recipients - 1))
   \<and> (0 < delaySeconds (settingsOf opts) \<longrightarrow>
        (\<forall>w \<in> set (waits (trace (final (createMultipleGroups cl groupPrefix count ps opts cb rnd)))).
            w = delaySeconds (settingsOf opts) * 1000))"
proof (intro conjI impI)
  assume u: "unitDraws rnd"
  let ?Q = "\<lambda>e. \<forall>w. e = UnitDelay w \<longrightarrow> D * 1000 + 1000 \<le> w \<and> w \<le> D * 1000 + 5999"
  have "\<forall>e \<in> set (trace (final (sendBulkMessages cl message recipients delaySecs cb rnd))). ?Q e"
  proof (rule sendBulkMessages_always)
    fix j
    have "unitDraw (rnd j)" using u by (simp add: unitDraws_def)
    from randomOffset_bounds [OF this]
    show "?Q (UnitDelay (getRandomizedDelay (case delaySecs of None \<Rightarrow> 3 | Some d \<Rightarrow> d) (rnd j)))"
      by (simp add: getRandomizedDelay_eq D_def)
  qed simp_all
  then show "\<forall>w \<in> set (waits (trace (final (sendBulkMessages cl message recipients delaySecs cb rnd)))).
            D * 1000 + 1000 \<le> w \<and> w \<le> D * 1000 + 5999"
    by (simp add: set_waits)
next
  assume "0 < totalProcessed"
  then show "\<exists>rest. trace (trySendMessage cl message D rnd totalProcessed recipient s) =
           trace s @ UnitDelay (D * 1000 + \<lfloor>rnd (draws s) * 5000 + 1000\<rfloor>) # rest"
    by (rule trySendMessage_wait(1))
next
  assume "0 < totalProcessed"
  then show "draws s < draws (trySendMessage cl message D rnd totalProcessed recipient s)"
    by (rule trySendMessage_wait(2))
next
  assume "info cl \<and> quiet cb \<and> unitDraws rnd"
  then have a: "info cl" "quiet cb" "unitDraws rnd" by simp_all
  from sendBulkMessages_run [OF a, of message recipients delaySecs]
  show "\<exists>s'. sendBulkMessages cl message recipients delaySecs cb rnd = Normal s'
           \<and> length (waits (trace s')) = length recipients - 1"
    by blast
next
  assume d: "0 < delaySeconds (settingsOf opts)"
  let ?Q = "\<lambda>e. \<forall>w. e = UnitDelay w \<longrightarrow> w = delaySeconds (settingsOf opts) * 1000"
  have "\<forall>e \<in> set (trace (final (createMultipleGroups cl groupPrefix count ps opts cb rnd))). ?Q e"
    by (rule createMultipleGroups_always) (use d in \<open>simp_all add: waitTime_def\<close>)
  then show "\<forall>w \<in> set (waits (trace (final (createMultipleGroups cl groupPrefix count ps opts cb rnd)))).
            w = delaySeconds (settingsOf opts) * 1000"
    by (simp add: set_waits)
qed

theorem C4_fixed_delay_jitter_on_message_path_only_witness:
  "unitDraws (\<lambda>k. 1 / 2) \<and> (0 :: int) < 1 \<and> quiet None
   \<and> 0 < delaySeconds (settingsOf (noOptions\<lparr>o_delaySeconds := Some 5\<rparr>))
   \<and> waits (trace (final (sendBulkMessages
           \<lparr>info = True, createGroup = (\<lambda>k n ps. Resolves (Some [0x67])),
            sendMessage = (\<lambda>k r t. Resolves (Some [0x6D]))\<rparr>
           [0x68, 0x69] [ascii ''628123@c.us'', ascii ''628124@c.us''] (Some 2) None
           (\<lambda>k. 1 / 2)))) = [5500]
   \<and> (2 :: int) * 1000 + 1000 \<le> 5500 \<and> (5500 :: int) \<le> 2 * 1000 + 5999
   \<and> (\<exists>s'. sendBulkMessages
           \<lparr>info = True, createGroup = (\<lambda>k n ps. Resolves (Some [0x67])),
            sendMessage = (\<lambda>k r t. Resolves (Some [0x6D]))\<rparr>
           [0x68, 0x69] [ascii ''628123@c.us'', ascii ''628124@c.us''] (Some 2) None
           (\<lambda>k. 1 / 2) = Normal s'
         \<and> length (waits (trace s')) = 1)
   \<and> waits (trace (final (createMultipleGroups
           \<lparr>info = True, createGroup = (\<lambda>k n ps. Resolves (Some [0x67])),
            sendMessage = (\<lambda>k r t. Resolves (Some [0x6D]))\<rparr>
           [0x47] 3 [ascii ''628123@c.us''] (noOptions\<lparr>o_delaySeconds := Some 5\<rparr>) None
           (\<lambda>k. 1 / 2)))) = [5000, 5000]"
proof -
  let ?cl = "\<lparr>info = True, createGroup = (\<lambda>k n ps. Resolves (Some [0x67])),
            sendMessage = (\<lambda>k r t. Resolves (Some [0x6D]))\<rparr>"
  have u: "unitDraws (\<lambda>k. 1 / 2)" by (simp add: unitDraws_def unitDraw_def)
  have q: "quiet None" by (simp add: quiet_def)
  have d: "delaySeconds (settingsOf (noOptions\<lparr>o_delaySeconds := Some 5\<rparr>)) = 5"
    by (simp add: settingsOf_def orElse_def noOptions_def)
  have m: "waits (trace (final (sendBulkMessages ?cl [0x68, 0x69]
             [ascii ''628123@c.us'', ascii ''628124@c.us''] (Some 2) None (\<lambda>k. 1 / 2)))) = [5500]"
    by code_simp
  have g: "waits (trace (final (createMultipleGroups ?cl [0x47] 3 [ascii ''628123@c.us'']
             (noOptions\<lparr>o_delaySeconds := Some 5\<rparr>) None (\<lambda>k. 1 / 2)))) = [5000, 5000]"
    by code_simp
  show ?thesis
    using u q d m g
      C4_fixed_delay_jitter_on_message_path_only
        [where rnd = "\<lambda>k. 1 / 2" and cl = ?cl and cb = None and delaySecs = "Some 2"
           and message = "[0x68, 0x69]" and recipients = "[ascii ''628123@c.us'', ascii ''628124@c.us'']"
           and totalProcessed = 1 and opts = "noOptions\<lparr>o_delaySeconds := Some 5\<rparr>"
           and groupPrefix = "[0x47]" and count = 3 and ps = "[ascii ''628123@c.us'']"]
    by simp
qed



subsection \<open>Validation\<close>

text \<open>
  C5, as the specification states it, has both paths check the identifiers. The message
  path does not: the recipient \<open>abc\<close> is handed to \<^verbatim>\<open>sendMessage\<close>.
\<close>

theorem C5_recipients_not_validated_counterexample:
  "sendBulkMessages
     \<lparr>info = True, createGroup = (\<lambda>k n ps. Resolves None),
      sendMessage = (\<lambda>k r t. Rejects [0x78])\<rparr>
     [0x68, 0x69] [ascii ''abc''] (Some 3) None (\<lambda>k. 0)
   = Normal \<lparr>success = 0, failed = 1,
             log = [messageFailed (ascii ''abc'') [0x78]],
             trace = [SendMessage (ascii ''abc'') [0x68, 0x69]],
             calls = 1, draws = 1\<rparr>
   \<and> \<not> matchesPhone (ascii ''abc'')"
  by code_simp

text \<open>
  C5, amended. On the group path every participant list handed to \<^verbatim>\<open>createGroup\<close>
  is the one supplied and each of its identifiers is digits followed by
  \<^verbatim>\<open>@c.us\<close>; a list with a malformed identifier rejects the run before any batch,
  with no call made and nothing recorded. On the message path the recipients are handed
  to \<^verbatim>\<open>sendMessage\<close> as supplied, one call each, in order.
\<close>

theorem C5_participants_validated_recipients_passed_on:
  "(\<forall>name ps'. CreateGroup name ps'
        \<in> set (trace (final (createMultipleGroups cl groupPrefix count ps opts cb rnd)))
      \<longrightarrow> ps' = ps \<and> (\<forall>p \<in> set ps'. phonePattern p))
   \<and> ((\<exists>p \<in> set ps. \<not> phonePattern p) \<longrightarrow>
        (\<exists>e s. createMultipleGroups cl groupPrefix count ps opts cb rnd = Threw e s
           \<and> calls s = 0 \<and> log s = [] \<and> trace s = []))
   \<and> (info cl \<and> quiet cb \<and> unitDraws rnd \<longrightarrow>
        (\<exists>s. sendBulkMessages cl message recipients delaySecs cb rnd = Normal s
           \<and> map fst (sent (trace s)) = recipients))"
proof (intro conjI allI impI)
  fix name ps'
  assume c: "CreateGroup name ps'
        \<in> set (trace (final (createMultipleGroups cl groupPrefix count ps opts cb rnd)))"
  let ?Q = "\<lambda>e. \<forall>n q. e = CreateGroup n q \<longrightarrow> q = ps \<and> (\<forall>p \<in> set q. phonePattern p)"
  have "\<forall>e \<in> set (trace (final (createMultipleGroups cl groupPrefix count ps opts cb rnd))). ?Q e"
  proof (rule createMultipleGroups_always)
    fix n assume "validateParticipants ps = None"
    then show "?Q (CreateGroup n ps)"
      by (simp add: validateParticipants_None matchesPhone_iff)
  qed simp_all
  with c show "ps' = ps" "\<forall>p \<in> set ps'. phonePattern p" by blast+
next
  assume "\<exists>p \<in> set ps. \<not> phonePattern p"
  then have "validateParticipants ps \<noteq> None"
    by (auto simp: validateParticipants_None matchesPhone_iff)
  then show "\<exists>e s. createMultipleGroups cl groupPrefix count ps opts cb rnd = Threw e s
           \<and> calls s = 0 \<and> log s = [] \<and> trace s = []"
    by (auto simp: createMultipleGroups_def Let_def initial_def)
next
  assume "info cl \<and> quiet cb \<and> unitDraws rnd"
  then have a: "info cl" "quiet cb" "unitDraws rnd" by simp_all
  from sendBulkMessages_run [OF a, of message recipients delaySecs]
  show "\<exists>s. sendBulkMessages cl message recipients delaySecs cb rnd = Normal s
           \<and> map fst (sent (trace s)) = recipients"
    by blast
qed

theorem C5_participants_validated_recipients_passed_on_witness:
  "(\<exists>e s. createMultipleGroups
        \<lparr>info = True, createGroup = (\<lambda>k n ps. Resolves (Some [0x67])),
         sendMessage = (\<lambda>k r t. Resolves (Some [0x6D]))\<rparr>
        [0x47] 3 [ascii ''628123@c.us'', ascii ''abc''] noOptions None (\<lambda>k. 0) = Threw e s
      \<and> calls s = 0 \<and> log s = [] \<and> trace s = [])
   \<and> (\<exists>s. sendBulkMessages
        \<lparr>info = True, createGroup = (\<lambda>k n ps. Resolves (Some [0x67])),
         sendMessage = (\<lambda>k r t. Resolves (Some [0x6D]))\<rparr>
        [0x68, 0x69] [ascii ''628123@c.us'', ascii ''abc''] (Some 3) None (\<lambda>k. 0) = Normal s
      \<and> map fst (sent (trace s)) = [ascii ''628123@c.us'', ascii ''abc''])"
proof -
  let ?cl = "\<lparr>info = True, createGroup = (\<lambda>k n ps. Resolves (Some [0x67])),
         sendMessage = (\<lambda>k r t. Resolves (Some [0x6D]))\<rparr>"
  have bad: "\<exists>p \<in> set [ascii ''628123@c.us'', ascii ''abc'']. \<not> phonePattern p"
    by (simp add: matchesPhone_iff [symmetric] matchesPhone_def ascii_def isDigit_def)
  have ok: "info ?cl \<and> quiet None \<and> unitDraws (\<lambda>k. 0)"
    by (simp add: quiet_def unitDraws_def unitDraw_def)
  show ?thesis
    using bad ok
      C5_participants_validated_recipients_passed_on
        [of ?cl "[0x47]" 3 "[ascii ''628123@c.us'', ascii ''abc'']" noOptions None "\<lambda>k. 0"
            "[0x68, 0x69]" "[ascii ''628123@c.us'', ascii ''abc'']" "Some 3"]
    by blast
qed

text \<open>
  C8, as the specification states it, rejects a batch size that is not positive. A batch
  size of 0 is not rejected: the default of 10 replaces it and the group is created.
\<close>

theorem C8_zero_batch_size_not_rejected_counterexample:
  "createMultipleGroups
     \<lparr>info = True, createGroup = (\<lambda>k n ps. Resolves (Some [0x67])),
      sendMessage = (\<lambda>k r t. Resolves None)\<rparr>
     [0x47] 1 [ascii ''628123@c.us''] (noOptions\<lparr>o_batchSize := Some 0\<rparr>) None (\<lambda>k. 0)
   = Normal \<lparr>success = 1, failed = 0,
             log = [groupCreated [0x47, 0x20, 0x31] 1 [0x67]],
             trace = [CreateGroup [0x47, 0x20, 0x31] [ascii ''628123@c.us'']],
             calls = 1, draws = 0\<rparr>"
  by code_simp

text \<open>
  C8, amended. A client that is not ready, an empty participant list or one of more than
  256 rejects the group run before any unit: no call, no entry, no effect; a client that
  is not ready rejects the message run likewise. A batch size of 0 is replaced by 10. A
  negative batch size, or no unit at all (no group to create, no recipient), is not
  rejected either: the run returns the empty results without a call.
\<close>

theorem C8_rejected_before_any_unit:
  "(\<not> info cl \<or> ps = [] \<or> 256 < length ps \<longrightarrow>
      (\<exists>e s. createMultipleGroups cl groupPrefix count ps opts cb rnd = Threw e s
          \<and> calls s = 0 \<and> log s = [] \<and> trace s = []))
   \<and> (\<not> info cl \<longrightarrow>
      (\<exists>s. sendBulkMessages cl message recipients delaySecs cb rnd = Threw ClientNotReady s
          \<and> calls s = 0 \<and> log s = [] \<and> trace s = []))
   \<and> batchSize (settingsOf (opts\<lparr>o_batchSize := Some 0\<rparr>)) = 10
   \<and> (info cl \<and> validateParticipants ps = None
        \<and> (count = 0 \<or> batchSize (settingsOf opts) < 0 \<and> 0 \<le> count) \<longrightarrow>
      createMultipleGroups cl groupPrefix count ps opts cb rnd = Normal initial)
   \<and> (info cl \<longrightarrow> sendBulkMessages cl message [] delaySecs cb rnd = Normal initial)"
proof (intro conjI impI)
  assume "\<not> info cl \<or> ps = [] \<or> 256 < length ps"
  then show "\<exists>e s. createMultipleGroups cl groupPrefix count ps opts cb rnd = Threw e s
          \<and> calls s = 0 \<and> log s = [] \<and> trace s = []"
    by (auto simp: createMultipleGroups_def Let_def validateParticipants_def initial_def)
next
  assume "\<not> info cl"
  then show "\<exists>s. sendBulkMessages cl message recipients delaySecs cb rnd = Threw ClientNotReady s
          \<and> calls s = 0 \<and> log s = [] \<and> trace s = []"
    by (simp add: sendBulkMessages_def Let_def initial_def)
next
  show "batchSize (settingsOf (opts\<lparr>o_batchSize := Some 0\<rparr>)) = 10"
    by (simp add: settingsOf_def orElse_def)
next
  assume a: "info cl \<and> validateParticipants ps = None
        \<and> (count = 0 \<or> batchSize (settingsOf opts) < 0 \<and> 0 \<le> count)"
  then have "\<lceil>real_of_int count / real_of_int (batchSize (settingsOf opts))\<rceil> \<le> 0"
    by (intro totalBatches_none) blast
  then show "createMultipleGroups cl groupPrefix count ps opts cb rnd = Normal initial"
    using a by (simp add: createMultipleGroups_def Let_def forLoop_none)
next
  assume "info cl"
  then show "sendBulkMessages cl message [] delaySecs cb rnd = Normal initial"
    by (simp add: sendBulkMessages_def Let_def forLoop_none)
qed

theorem C8_rejected_before_any_unit_witness:
  "(\<exists>e s. createMultipleGroups
        \<lparr>info = True, createGroup = (\<lambda>k n ps. Resolves (Some [0x67])),
         sendMessage = (\<lambda>k r t. Resolves (Some [0x6D]))\<rparr>
        [0x47] 3 [] noOptions None (\<lambda>k. 0) = Threw e s
      \<and> calls s = 0 \<and> log s = [] \<and> trace s = [])
   \<and> (\<exists>s. sendBulkMessages
        \<lparr>info = False, createGroup = (\<lambda>k n ps. Resolves (Some [0x67])),
         sendMessage = (\<lambda>k r t. Resolves (Some [0x6D]))\<rparr>
        [0x68, 0x69] [ascii ''628123@c.us''] (Some 3) None (\<lambda>k. 0) = Threw ClientNotReady s
      \<and> calls s = 0 \<and> log s = [] \<and> trace s = [])
   \<and> createMultipleGroups
        \<lparr>info = True, createGroup = (\<lambda>k n ps. Resolves (Some [0x67])),
         sendMessage = (\<lambda>k r t. Resolves (Some [0x6D]))\<rparr>
        [0x47] 3 [ascii ''628123@c.us''] (noOptions\<lparr>o_batchSize := Some (- 5)\<rparr>) None (\<lambda>k. 0)
      = Normal initial"
proof -
  let ?cl = "\<lparr>info = True, createGroup = (\<lambda>k n ps. Resolves (Some [0x67])),
         sendMessage = (\<lambda>k r t. Resolves (Some [0x6D]))\<rparr>"
  let ?off = "\<lparr>info = False, createGroup = (\<lambda>k n ps. Resolves (Some [0x67])),
         sendMessage = (\<lambda>k r t. Resolves (Some [0x6D]))\<rparr>"
  have v: "validateParticipants [ascii ''628123@c.us''] = None"
    by (simp add: validateParticipants_def matchesPhone_def ascii_def isDigit_def)
  have b: "batchSize (settingsOf (noOptions\<lparr>o_batchSize := Some (- 5)\<rparr>)) < 0"
    by (simp add: settingsOf_def orElse_def noOptions_def)
  show ?thesis
    using v b
      C8_rejected_before_any_unit [of ?cl "[]" "[0x47]" 3 noOptions None "\<lambda>k. 0"]
      C8_rejected_before_any_unit [of ?off "[]" "[0x47]" 3 noOptions None "\<lambda>k. 0"
         "[0x68, 0x69]" "[ascii ''628123@c.us'']" "Some 3"]
      C8_rejected_before_any_unit [of ?cl "[ascii ''628123@c.us'']" "[0x47]" 3
         "noOptions\<lparr>o_batchSize := Some (- 5)\<rparr>" None "\<lambda>k. 0"]
    by simp
qed

subsection \<open>Content variation\<close>

text \<open>
  C7. For every non-empty message and every draw, the variator returns a message that is
  at least as long as the input and at most two code units longer (in fact at most one),
  hence not empty; and there is a draw (0, which selects the rule that appends nothing)
  for which the output is the input.
\<close>

theorem C7_variation_length_and_noop:
  assumes "originalMessage \<noteq> []" and "unitDraw (rnd k)" and "unitDraw (rnd (k + 1))"
  shows "(\<exists>out. fst (addMessageVariation rnd k originalMessage) = Some out
            \<and> length originalMessage \<le> length out
            \<and> length out \<le> length originalMessage + 2
            \<and> out \<noteq> [])
       \<and> (\<exists>r. unitDraw r
            \<and> fst (addMessageVariation (\<lambda>_. r) k originalMessage) = Some originalMessage)"
proof -
  from addMessageVariation_length [OF assms(2,3), of originalMessage]
  obtain out where out: "fst (addMessageVariation rnd k originalMessage) = Some out"
    "length originalMessage \<le> length out" "length out \<le> length originalMessage + 1"
    by blast
  from out(2) assms(1) have "out \<noteq> []" by auto
  with out have "\<exists>out. fst (addMessageVariation rnd k originalMessage) = Some out
            \<and> length originalMessage \<le> length out
            \<and> length out \<le> length originalMessage + 2
            \<and> out \<noteq> []"
    by auto
  moreover have "\<exists>r. unitDraw r
            \<and> fst (addMessageVariation (\<lambda>_. r) k originalMessage) = Some originalMessage"
    using noop_draw [of k originalMessage] by (intro exI [of _ 0]) simp
  ultimately show ?thesis by blast
qed

theorem C7_variation_length_and_noop_witness:
  "[0x61, 0x62] \<noteq> ([] :: ustring) \<and> unitDraw (85 / 100)
   \<and> fst (addMessageVariation (\<lambda>_. 85 / 100) 0 [0x61, 0x62]) = Some [0x61, 0x200B, 0x62]
   \<and> (\<exists>out. fst (addMessageVariation (\<lambda>_. 85 / 100) 0 [0x61, 0x62]) = Some out
         \<and> length [0x61, 0x62 :: uchar] \<le> length out
         \<and> length out \<le> length [0x61, 0x62 :: uchar] + 2 \<and> out \<noteq> [])"
proof -
  have n: "[0x61, 0x62] \<noteq> ([] :: ustring)" by simp
  have u: "unitDraw ((\<lambda>_. 85 / 100) (0 :: nat))" "unitDraw ((\<lambda>_. 85 / 100) ((0 :: nat) + 1))"
    by (simp_all add: unitDraw_def)
  have e: "fst (addMessageVariation (\<lambda>_. 85 / 100) 0 [0x61, 0x62]) = Some [0x61, 0x200B, 0x62]"
    by (simp add: addMessageVariation_def MESSAGE_VARIATIONS_def element_def slice_def)
  show ?thesis
    using n u e C7_variation_length_and_noop [OF n u] by simp
qed

text \<open>
  C9, as the specification states it, would make the end of the payload a possible place
  for the mark. It is not: whatever the draws, the variator never turns \<open>ab\<close> into
  \<open>ab\<close> followed by the zero-width space.
\<close>

theorem C9_marker_never_at_end_counterexample:
  "\<not> (\<exists>rnd. (\<forall>k. unitDraw (rnd k))
        \<and> fst (addMessageVariation rnd 0 [0x61, 0x62]) = Some [0x61, 0x62, 0x200B])"
proof
  assume "\<exists>rnd. (\<forall>k. unitDraw (rnd k))
        \<and> fst (addMessageVariation rnd 0 [0x61, 0x62]) = Some [0x61, 0x62, 0x200B]"
  then obtain rnd where u: "\<And>k. unitDraw (rnd k)"
    and out: "fst (addMessageVariation rnd 0 [0x61, 0x62]) = Some [0x61, 0x62, 0x200B]"
    by blast
  obtain v where v: "element MESSAGE_VARIATIONS \<lfloor>rnd 0 * real_of_int (int (length MESSAGE_VARIATIONS))\<rfloor> = Some v"
    and vin: "v \<in> set MESSAGE_VARIATIONS"
    using element_variations [OF u [of 0]] by auto
  have r: "0 \<le> rnd 1" "rnd 1 < 1"
    using u [of 1] by (simp_all add: unitDraw_def)
  have lo: "0 \<le> \<lfloor>rnd 1 * 2\<rfloor>"
    using r by simp
  have "rnd 1 * 2 < 2"
    using r by simp
  then have "\<lfloor>rnd 1 * 2\<rfloor> < 2"
    by (simp add: floor_less_iff)
  with lo have p: "\<lfloor>rnd 1 * 2\<rfloor> = 0 \<or> \<lfloor>rnd 1 * 2\<rfloor> = 1" by linarith
  from vin p out v show False
    by (auto simp: MESSAGE_VARIATIONS_def addMessageVariation_def Let_def slice_def)
qed

text \<open>
  C9, amended. When an invisible-mark rule is selected for a payload of \<open>n \<ge> 1\<close> code
  units, the mark is inserted at offset \<open>\<lfloor>r * n\<rfloor>\<close> for the next draw \<open>r\<close>: an offset
  from 0 to \<open>n - 1\<close>, never \<open>n\<close>. Offset \<open>j\<close> is taken exactly for the draws in
  \<open>[j / n, (j + 1) / n)\<close>, intervals of one length, so a uniform draw gives a uniform
  offset in \<open>0..n - 1\<close>.
\<close>

theorem C9_marker_offset_below_length:
  assumes "unitDraw (rnd (k + 1))"
    and "element MESSAGE_VARIATIONS \<lfloor>rnd k * real_of_int (int (length MESSAGE_VARIATIONS))\<rfloor>
           = Some (Invisible mark)"
    and "originalMessage \<noteq> []"
  shows "\<exists>position. position = \<lfloor>rnd (k + 1) * real (length originalMessage)\<rfloor>
           \<and> 0 \<le> position \<and> position < int (length originalMessage)
           \<and> addMessageVariation rnd k originalMessage =
               (Some (take (nat position) originalMessage @ mark
                      @ drop (nat position) originalMessage), k + 2)
           \<and> (\<forall>j. position = j \<longleftrightarrow>
                  real_of_int j / real (length originalMessage) \<le> rnd (k + 1)
                  \<and> rnd (k + 1) < real_of_int (j + 1) / real (length originalMessage))"
  using invisible_position [OF assms] by simp

theorem C9_marker_offset_below_length_witness:
  "unitDraw (99 / 100)
   \<and> element MESSAGE_VARIATIONS \<lfloor>(85 / 100 :: real) * real_of_int (int (length MESSAGE_VARIATIONS))\<rfloor>
       = Some (Invisible [0x200B])
   \<and> [0x61, 0x62] \<noteq> ([] :: ustring)
   \<and> addMessageVariation (\<lambda>k. if k = 0 then 85 / 100 else 99 / 100) 0 [0x61, 0x62]
       = (Some [0x61, 0x200B, 0x62], 2)
   \<and> (\<exists>position :: int. 0 \<le> position \<and> position < 2
         \<and> addMessageVariation (\<lambda>k. if k = 0 then 85 / 100 else 99 / 100) 0 [0x61, 0x62]
             = (Some (take (nat position) [0x61, 0x62] @ [0x200B]
                      @ drop (nat position) [0x61, 0x62]), 2))"
proof -
  let ?rnd = "\<lambda>k :: nat. if k = 0 then 85 / 100 else 99 / 100 :: real"
  have u: "unitDraw (?rnd (0 + 1))" by (simp add: unitDraw_def)
  have v: "element MESSAGE_VARIATIONS \<lfloor>?rnd 0 * real_of_int (int (length MESSAGE_VARIATIONS))\<rfloor>
             = Some (Invisible [0x200B])"
    by (simp add: MESSAGE_VARIATIONS_def element_def)
  have n: "[0x61, 0x62] \<noteq> ([] :: ustring)" by simp
  have e: "addMessageVariation ?rnd 0 [0x61, 0x62] = (Some [0x61, 0x200B, 0x62], 2)"
    by (simp add: addMessageVariation_def MESSAGE_VARIATIONS_def element_def slice_def)
  from C9_marker_offset_below_length [OF u v n]
  obtain position where "0 \<le> position" "position < int (length [0x61, 0x62 :: uchar])"
    "addMessageVariation ?rnd 0 [0x61, 0x62] =
       (Some (take (nat position) [0x61, 0x62] @ [0x200B] @ drop (nat position) [0x61, 0x62]), 0 + 2)"
    by blast
  then have "\<exists>position :: int. 0 \<le> position \<and> position < 2
         \<and> addMessageVariation ?rnd 0 [0x61, 0x62]
             = (Some (take (nat position) [0x61, 0x62] @ [0x200B]
                      @ drop (nat position) [0x61, 0x62]), 2)"
    by (intro exI [of _ position]) simp
  with u v n e show ?thesis by simp
qed

subsection \<open>Group names\<close>



end
